theory Spec2Isabelle
  imports Complex_Main
begin

section \<open>Optimising an acquisition function with CMA-ES: the notebook's glue code\<close>

text \<open>
  The code cell of \<^verbatim>\<open>tutorials/optimize_with_cmaes.ipynb\<close> converts the initial
  point to a numpy array, constructs a CMA-ES optimizer, drives its ask/tell loop with a
  batched evaluation of the negated acquisition function, and converts the optimizer's
  best point back into a tensor. The optimizer (\<^verbatim>\<open>cma\<close>) and the acquisition function
  are external: they are parameters of the model, every call of them may raise, and every
  call is recorded in a trace. The variables of the cell are the fields of a state record
  that every statement takes and returns. The tensor operations the cell uses (\<^verbatim>\<open>cpu\<close>,
  \<^verbatim>\<open>double\<close>, \<^verbatim>\<open>numpy\<close>, \<^verbatim>\<open>from_numpy\<close>, \<^verbatim>\<open>to\<close>, \<^verbatim>\<open>view(-1)\<close>, unary minus) are
  modelled on a tensor's device, dtype, shape and flat row-major data.

  None of these operations writes in place, but several of them return a view and not a
  copy: \<^verbatim>\<open>cpu\<close>, \<^verbatim>\<open>double\<close> and \<^verbatim>\<open>to\<close> return the tensor itself when there is
  nothing to convert, and \<^verbatim>\<open>numpy\<close> and \<^verbatim>\<open>from_numpy\<close> always share the memory of
  their argument. Two pairs of the cell's variables can therefore share memory while an
  external library holds one of the pair: \<open>x0\<close> with \<open>X_init\<close> (line 45; \<open>x0\<close> goes to the
  optimizer's constructor, which may keep it), and \<open>X\<close> with \<open>xs\<close> (line 62; \<open>X\<close> goes to
  the acquisition function). The libraries may write into what they hold. The model keeps
  tensors and arrays as values and writes every such change through to the variable that
  shares the memory, under the condition on \<open>X_init\<close> for which it does.
\<close>

subsection \<open>Tensors, arrays and Python values\<close>

datatype device = CPU | CUDA nat

datatype dtype = Float16 | Float32 | Float64 | UInt8 | Int8 | Int16 | Int32 | Int64

record 'a tensor =
  device :: device
  dtype :: dtype
  shape :: "nat list"
  data :: "'a list"
  requires_grad :: bool

record 'a ndarray =
  np_dtype :: dtype
  np_shape :: "nat list"
  np_data :: "'a list"

text \<open>
  What crosses the boundary to the optimizer is a Python object: a numpy array, or
  something else (\<^verbatim>\<open>None\<close>, a list).
\<close>

datatype 'a pyobj = NdArray "'a ndarray" | PyList "'a pyobj list" | PyNone

datatype 'x exn = TypeError | RuntimeError | External 'x

datatype optval = OptInt int | OptList "int list"

type_synonym inopts = "(string \<times> optval) list"

subsection \<open>The external libraries\<close>

text \<open>
  \<open>cast\<close> is the element conversion between two dtypes (rounding included), which the
  model leaves open. The optimizer is an object with state \<open>'es\<close>; each of its methods
  returns the new state or raises; \<open>best\<close> reads the attribute \<^verbatim>\<open>es.best.x\<close>.
  \<open>acq_func\<close> maps a batch of candidates to a batch of scores or raises.

  What the libraries write into the arrays they hold: \<open>x0_written l e c\<close> are the elements
  of the array the optimizer was constructed with, after a call of the constructor or of
  a method that left the optimizer in the state \<open>e\<close>, when the array held \<open>c\<close> before the
  call; \<open>X_written l t\<close> are the elements of the tensor \<open>t\<close> after the call
  \<^verbatim>\<open>acq_func(t)\<close> has returned. A library that writes nothing has
  \<open>x0_written l e c = c\<close> and \<open>X_written l t = data t\<close>. A call that raises ends the run;
  what it wrote before raising is not modelled. Neither is what \<open>tell\<close> leaves in its two
  arguments, which the cell does not read again, nor any sharing between the arrays
  that the optimizer returns and the array it was constructed with.
\<close>

record ('a, 'es, 'x) lib =
  cast :: "dtype \<Rightarrow> dtype \<Rightarrow> 'a \<Rightarrow> 'a"
  CMAEvolutionStrategy :: "'a ndarray \<Rightarrow> real \<Rightarrow> inopts \<Rightarrow> 'x exn + 'es"
  stop :: "'es \<Rightarrow> 'x exn + bool \<times> 'es"
  ask :: "'es \<Rightarrow> 'x exn + 'a pyobj \<times> 'es"
  tell :: "'es \<Rightarrow> 'a pyobj \<Rightarrow> 'a ndarray \<Rightarrow> 'x exn + 'es"
  best :: "'es \<Rightarrow> 'x exn + 'a pyobj"
  acq_func :: "'a tensor \<Rightarrow> 'x exn + 'a tensor"
  x0_written :: "'es \<Rightarrow> 'a list \<Rightarrow> 'a list"
  X_written :: "'a tensor \<Rightarrow> 'a list"

subsection \<open>The variables of the cell\<close>

text \<open>
  \<open>X_init\<close> is the cell's input; the other variables are assigned by the cell. Whatever
  else the notebook holds is the record's extension. No statement of the cell assigns
  \<open>X_init\<close>; its elements change when a library writes into memory that it shares.
\<close>

record ('a, 'es) vars =
  X_init :: "'a tensor"
  x0 :: "'a ndarray"
  es :: 'es
  xs :: "'a pyobj"
  X :: "'a tensor"
  Y :: "'a tensor"
  y :: "'a ndarray"
  best_x :: "'a tensor"

subsection \<open>The trace of external calls\<close>

text \<open>
  Every call across the boundary is recorded with its arguments and with what came back:
  a return value or the exception raised.
\<close>

datatype 'a call =
    Construct "'a ndarray" real inopts
  | Stop
  | Ask
  | Acq "'a tensor"
  | Tell "'a pyobj" "'a ndarray"
  | Best

datatype ('a, 'x) outcome =
    Raised "'x exn"
  | Done
  | RetBool bool
  | RetObj "'a pyobj"
  | RetTensor "'a tensor"

type_synonym ('a, 'x) trace = "('a call \<times> ('a, 'x) outcome) list"

text \<open>
  A statement takes the variables and the trace so far, and returns the exception it
  raised, if any, with the variables and the trace after it.
\<close>

type_synonym ('a, 'es, 'z, 'x) stmt =
  "('a, 'es, 'z) vars_scheme \<Rightarrow> ('a, 'x) trace
     \<Rightarrow> 'x exn option \<times> ('a, 'es, 'z) vars_scheme \<times> ('a, 'x) trace"

definition seq ::
  "('a, 'es, 'z, 'x) stmt \<Rightarrow> ('a, 'es, 'z, 'x) stmt \<Rightarrow> ('a, 'es, 'z, 'x) stmt" where
  "seq p q = (\<lambda>s tr. case p s tr of
      (Some e, s1, tr1) \<Rightarrow> (Some e, s1, tr1)
    | (None, s1, tr1) \<Rightarrow> q s1 tr1)"

text \<open>
  An external call with outcome \<open>res\<close>: it is recorded, and its result is stored by
  \<open>store\<close>. A library operation that is not recorded: \<open>compute\<close>.
\<close>

definition extern ::
  "'a call \<Rightarrow> ('r \<Rightarrow> ('a, 'x) outcome) \<Rightarrow> 'x exn + 'r
     \<Rightarrow> ('r \<Rightarrow> ('a, 'es, 'z) vars_scheme \<Rightarrow> ('a, 'es, 'z) vars_scheme)
     \<Rightarrow> ('a, 'es, 'z, 'x) stmt" where
  "extern c out res store = (\<lambda>s tr. case res of
      Inl e \<Rightarrow> (Some e, s, tr @ [(c, Raised e)])
    | Inr r \<Rightarrow> (None, store r s, tr @ [(c, out r)]))"

definition compute ::
  "'x exn + 'r \<Rightarrow> ('r \<Rightarrow> ('a, 'es, 'z) vars_scheme \<Rightarrow> ('a, 'es, 'z) vars_scheme)
     \<Rightarrow> ('a, 'es, 'z, 'x) stmt" where
  "compute res store = (\<lambda>s tr. case res of
      Inl e \<Rightarrow> (Some e, s, tr)
    | Inr r \<Rightarrow> (None, store r s, tr))"

subsection \<open>Tensor operations\<close>

text \<open>
  Converting the elements of a tensor from one dtype to another; nothing changes when the
  two are the same.
\<close>

definition convert :: "('a, 'es, 'x) lib \<Rightarrow> dtype \<Rightarrow> dtype \<Rightarrow> 'a list \<Rightarrow> 'a list" where
  "convert l d d' vs = (if d = d' then vs else map (cast l d d') vs)"

definition to_dtype :: "('a, 'es, 'x) lib \<Rightarrow> 'a tensor \<Rightarrow> dtype \<Rightarrow> 'a tensor" where
  "to_dtype l t dt = t\<lparr>dtype := dt, data := convert l (dtype t) dt (data t)\<rparr>"

definition to_device :: "'a tensor \<Rightarrow> device \<Rightarrow> 'a tensor" where
  "to_device t dev = t\<lparr>device := dev\<rparr>"

definition cpu :: "'a tensor \<Rightarrow> 'a tensor" where
  "cpu t = to_device t CPU"

definition double :: "('a, 'es, 'x) lib \<Rightarrow> 'a tensor \<Rightarrow> 'a tensor" where
  "double l t = to_dtype l t Float64"

definition to :: "('a, 'es, 'x) lib \<Rightarrow> 'a tensor \<Rightarrow> device \<Rightarrow> dtype \<Rightarrow> 'a tensor" where
  "to l t dev dt = to_device (to_dtype l t dt) dev"

text \<open>
  \<^verbatim>\<open>Tensor.numpy()\<close> raises a TypeError for a tensor that is not on the CPU and a
  RuntimeError for one that requires grad.
\<close>

definition numpy :: "'a tensor \<Rightarrow> 'x exn + 'a ndarray" where
  "numpy t =
     (if device t \<noteq> CPU then Inl TypeError
      else if requires_grad t then Inl RuntimeError
      else Inr \<lparr>np_dtype = dtype t, np_shape = shape t, np_data = data t\<rparr>)"

text \<open>
  \<^verbatim>\<open>torch.from_numpy\<close> gives a CPU tensor with the array's dtype, shape and data, and
  raises a TypeError for anything but a numpy array.
\<close>

definition tensor_of :: "'a ndarray \<Rightarrow> 'a tensor" where
  "tensor_of a = \<lparr>device = CPU, dtype = np_dtype a, shape = np_shape a,
                   data = np_data a, requires_grad = False\<rparr>"

definition from_numpy :: "'a pyobj \<Rightarrow> 'x exn + 'a tensor" where
  "from_numpy obj = (case obj of NdArray a \<Rightarrow> Inr (tensor_of a) | _ \<Rightarrow> Inl TypeError)"

text \<open>Unary minus inside \<^verbatim>\<open>torch.no_grad()\<close>: the result never requires grad.\<close>

definition neg :: "('a::uminus) tensor \<Rightarrow> 'a tensor" where
  "neg t = t\<lparr>data := map uminus (data t), requires_grad := False\<rparr>"

definition numel :: "'a tensor \<Rightarrow> nat" where
  "numel t = prod_list (shape t)"

definition view_flat :: "'a tensor \<Rightarrow> 'a tensor" where
  "view_flat t = t\<lparr>shape := [numel t]\<rparr>"

subsection \<open>Shared memory\<close>

text \<open>
  \<^verbatim>\<open>x0 = X_init.cpu().double().numpy()\<close> is a view of \<open>X_init\<close>'s memory exactly when
  \<open>X_init\<close> is on the CPU and holds doubles: \<^verbatim>\<open>cpu()\<close> and \<^verbatim>\<open>double()\<close> then return
  \<open>X_init\<close> itself, and \<^verbatim>\<open>numpy()\<close> shares memory. Otherwise one of the two conversions
  has made a copy.
\<close>

definition x0_is_view :: "'a tensor \<Rightarrow> bool" where
  "x0_is_view t = (device t = CPU \<and> dtype t = Float64)"

text \<open>
  \<^verbatim>\<open>X = torch.from_numpy(xs).to(device=X_init.device, dtype=X_init.dtype)\<close> is a view of
  the array \<open>xs\<close> exactly when \<open>X_init\<close> is on the CPU with the array's dtype:
  \<^verbatim>\<open>from_numpy\<close> shares memory, and \<^verbatim>\<open>to\<close> then returns its argument itself.
\<close>

definition X_is_view :: "'a tensor \<Rightarrow> 'a ndarray \<Rightarrow> bool" where
  "X_is_view t a = (device t = CPU \<and> dtype t = np_dtype a)"

text \<open>
  The variables after a call that left the optimizer in the state \<open>es s\<close>: the array \<open>x0\<close>
  holds what the optimizer has written into it, and so does \<open>X_init\<close> when \<open>x0\<close> is a
  view of it. The optimizer is only called after line 45, so that \<open>x0\<close> is the array made
  from \<open>X_init\<close> there.
\<close>

definition optimizer_called ::
  "('a, 'es, 'x) lib \<Rightarrow> ('a, 'es, 'z) vars_scheme \<Rightarrow> ('a, 'es, 'z) vars_scheme" where
  "optimizer_called l s =
     s\<lparr>x0 := (x0 s)\<lparr>np_data := x0_written l (es s) (np_data (x0 s))\<rparr>,
       X_init := (if x0_is_view (X_init s)
                  then (X_init s)\<lparr>data := x0_written l (es s) (np_data (x0 s))\<rparr>
                  else X_init s)\<rparr>"

text \<open>
  The variables after \<^verbatim>\<open>acq_func(X)\<close> has returned: the tensor \<open>X\<close> holds what the call
  has written into it, and so does the array \<open>xs\<close> when \<open>X\<close> is a view of it.
\<close>

definition acq_called ::
  "('a, 'es, 'x) lib \<Rightarrow> ('a, 'es, 'z) vars_scheme \<Rightarrow> ('a, 'es, 'z) vars_scheme" where
  "acq_called l s =
     s\<lparr>X := (X s)\<lparr>data := X_written l (X s)\<rparr>,
       xs := (case xs s of
                NdArray a \<Rightarrow>
                  if X_is_view (X_init s) a then NdArray (a\<lparr>np_data := X_written l (X s)\<rparr>)
                  else xs s
              | _ \<Rightarrow> xs s)\<rparr>"

subsection \<open>The code cell\<close>

definition sigma0 :: real where
  "sigma0 = 0.25"

definition inopts :: inopts where
  "inopts = [(''bounds'', OptList [0, 1]), (''popsize'', OptInt 100)]"

text \<open>\<^verbatim>\<open>x0 = X_init.cpu().double().numpy()\<close>\<close>

definition assign_x0 :: "('a, 'es, 'x) lib \<Rightarrow> ('a, 'es, 'z, 'x) stmt" where
  "assign_x0 l = (\<lambda>s. compute (numpy (double l (cpu (X_init s)))) (\<lambda>a s. s\<lparr>x0 := a\<rparr>) s)"

text \<open>
  \<^verbatim>\<open>es = cma.CMAEvolutionStrategy(x0=x0, sigma0=0.25,
    inopts={'bounds': [0, 1], "popsize": 100})\<close>. The constructor is passed the array
  \<open>x0\<close>; the trace records what the array held when it was passed.
\<close>

definition assign_es :: "('a, 'es, 'x) lib \<Rightarrow> ('a, 'es, 'z, 'x) stmt" where
  "assign_es l = (\<lambda>s. extern (Construct (x0 s) sigma0 inopts) (\<lambda>r. Done)
     (CMAEvolutionStrategy l (x0 s) sigma0 inopts)
     (\<lambda>r s. optimizer_called l (s\<lparr>es := r\<rparr>)) s)"

text \<open>
  \<^verbatim>\<open>es.stop()\<close>, the test of the loop. Like \<open>ask\<close> and \<open>tell\<close> below, it is a call of
  the optimizer, which may still hold \<open>x0\<close>.
\<close>

definition stop_test ::
  "('a, 'es, 'x) lib \<Rightarrow> ('a, 'es, 'z) vars_scheme \<Rightarrow> ('a, 'x) trace
     \<Rightarrow> ('x exn + bool) \<times> ('a, 'es, 'z) vars_scheme \<times> ('a, 'x) trace" where
  "stop_test l s tr =
     (case stop l (es s) of
        Inl e \<Rightarrow> (Inl e, s, tr @ [(Stop, Raised e)])
      | Inr (b, es1) \<Rightarrow>
          (Inr b, optimizer_called l (s\<lparr>es := es1\<rparr>), tr @ [(Stop, RetBool b)]))"

text \<open>\<^verbatim>\<open>xs = es.ask()\<close>\<close>

definition assign_xs :: "('a, 'es, 'x) lib \<Rightarrow> ('a, 'es, 'z, 'x) stmt" where
  "assign_xs l = (\<lambda>s. extern Ask (\<lambda>(a, es1). RetObj a) (ask l (es s))
     (\<lambda>(a, es1) s. optimizer_called l (s\<lparr>es := es1, xs := a\<rparr>)) s)"

text \<open>\<^verbatim>\<open>X = torch.from_numpy(xs).to(device=X_init.device, dtype=X_init.dtype)\<close>\<close>

definition assign_X :: "('a, 'es, 'x) lib \<Rightarrow> ('a, 'es, 'z, 'x) stmt" where
  "assign_X l = (\<lambda>s. compute
     (case from_numpy (xs s) of
        Inl e \<Rightarrow> Inl e
      | Inr t \<Rightarrow> Inr (to l t (device (X_init s)) (dtype (X_init s))))
     (\<lambda>t s. s\<lparr>X := t\<rparr>) s)"

text \<open>
  \<^verbatim>\<open>Y = - acq_func(X)\<close>. The trace records what \<open>X\<close> held when it was passed; what the
  call left in it is written through before \<open>Y\<close> is assigned.
\<close>

definition assign_Y :: "('a::uminus, 'es, 'x) lib \<Rightarrow> ('a, 'es, 'z, 'x) stmt" where
  "assign_Y l = (\<lambda>s. extern (Acq (X s)) RetTensor (acq_func l (X s))
     (\<lambda>A s. (acq_called l s)\<lparr>Y := neg A\<rparr>) s)"

text \<open>\<^verbatim>\<open>y = Y.view(-1).double().numpy()\<close>\<close>

definition assign_y :: "('a, 'es, 'x) lib \<Rightarrow> ('a, 'es, 'z, 'x) stmt" where
  "assign_y l = (\<lambda>s. compute (numpy (double l (view_flat (Y s)))) (\<lambda>a s. s\<lparr>y := a\<rparr>) s)"

text \<open>
  \<^verbatim>\<open>es.tell(xs, y)\<close>. The trace records what the two arrays held when they were
  passed.
\<close>

definition call_tell :: "('a, 'es, 'x) lib \<Rightarrow> ('a, 'es, 'z, 'x) stmt" where
  "call_tell l = (\<lambda>s. extern (Tell (xs s) (y s)) (\<lambda>r. Done) (tell l (es s) (xs s) (y s))
     (\<lambda>es2 s. optimizer_called l (s\<lparr>es := es2\<rparr>)) s)"

text \<open>The body of the loop: its five statements in order.\<close>

definition iteration :: "('a::uminus, 'es, 'x) lib \<Rightarrow> ('a, 'es, 'z, 'x) stmt" where
  "iteration l =
     seq (assign_xs l) (seq (assign_X l) (seq (assign_Y l) (seq (assign_y l) (call_tell l))))"

text \<open>
  \<^verbatim>\<open>while not es.stop(): ...\<close>. The loop ends when \<open>stop\<close> answers true or when a call
  raises; it may also run forever, which is the value \<open>None\<close>.
\<close>

partial_function (option) optimization_loop ::
  "('a::uminus, 'es, 'x) lib \<Rightarrow> ('a, 'es, 'z) vars_scheme \<Rightarrow> ('a, 'x) trace
     \<Rightarrow> ('x exn option \<times> ('a, 'es, 'z) vars_scheme \<times> ('a, 'x) trace) option" where
  "optimization_loop l s tr =
     (case stop_test l s tr of
        (Inl e, s1, tr1) \<Rightarrow> Some (Some e, s1, tr1)
      | (Inr stopped, s1, tr1) \<Rightarrow>
          if stopped then Some (None, s1, tr1)
          else (case iteration l s1 tr1 of
                  (Some e, s2, tr2) \<Rightarrow> Some (Some e, s2, tr2)
                | (None, s2, tr2) \<Rightarrow> optimization_loop l s2 tr2))"

declare optimization_loop.simps [code]

text \<open>\<^verbatim>\<open>best_x = torch.from_numpy(es.best.x)\<close>\<close>

definition assign_best_x :: "('a, 'es, 'x) lib \<Rightarrow> ('a, 'es, 'z, 'x) stmt" where
  "assign_best_x l = (\<lambda>s tr.
     case best l (es s) of
       Inl e \<Rightarrow> (Some e, s, tr @ [(Best, Raised e)])
     | Inr bx \<Rightarrow> compute (from_numpy bx) (\<lambda>t s. s\<lparr>best_x := t\<rparr>) s (tr @ [(Best, RetObj bx)]))"

text \<open>\<^verbatim>\<open>best_x = best_x.to(device=X_init.device, dtype=X_init.dtype)\<close>\<close>

definition move_best_x :: "('a, 'es, 'x) lib \<Rightarrow> ('a, 'es, 'z, 'x) stmt" where
  "move_best_x l = (\<lambda>s tr.
     (None, s\<lparr>best_x := to l (best_x s) (device (X_init s)) (dtype (X_init s))\<rparr>, tr))"

text \<open>
  The whole cell, started with an empty trace. When it returns without an exception, the
  result is the variable \<open>best_x\<close> of the final state.
\<close>

definition run ::
  "('a::uminus, 'es, 'x) lib \<Rightarrow> ('a, 'es, 'z) vars_scheme
     \<Rightarrow> ('x exn option \<times> ('a, 'es, 'z) vars_scheme \<times> ('a, 'x) trace) option" where
  "run l s =
     (case seq (assign_x0 l) (assign_es l) s [] of
        (Some e, s1, tr1) \<Rightarrow> Some (Some e, s1, tr1)
      | (None, s1, tr1) \<Rightarrow>
          (case optimization_loop l s1 tr1 of
             None \<Rightarrow> None
           | Some (Some e, s2, tr2) \<Rightarrow> Some (Some e, s2, tr2)
           | Some (None, s2, tr2) \<Rightarrow> Some (seq (assign_best_x l) (move_best_x l) s2 tr2)))"

subsection \<open>The runs of the loop and of the cell, as relations\<close>

text \<open>
  The batch that is evaluated when the optimizer proposed the array \<open>a\<close>, the scores that
  are told when the acquisition function returned \<open>A\<close>, and the initial point.
\<close>

definition batch_of :: "('a, 'es, 'x) lib \<Rightarrow> 'a tensor \<Rightarrow> 'a ndarray \<Rightarrow> 'a tensor" where
  "batch_of l X0 a = to l (tensor_of a) (device X0) (dtype X0)"

definition scores_of :: "('a::uminus, 'es, 'x) lib \<Rightarrow> 'a tensor \<Rightarrow> 'a ndarray" where
  "scores_of l A = \<lparr>np_dtype = Float64, np_shape = [numel A],
                     np_data = convert l (dtype A) Float64 (map uminus (data A))\<rparr>"

definition x0_of :: "('a, 'es, 'x) lib \<Rightarrow> 'a tensor \<Rightarrow> 'a ndarray" where
  "x0_of l X0 = \<lparr>np_dtype = Float64, np_shape = shape X0,
                  np_data = convert l (dtype X0) Float64 (data X0)\<rparr>"

text \<open>
  The object that is passed back to the optimizer when it proposed \<open>b\<close>: the array \<open>b\<close>
  itself, which holds what the call of the acquisition function has left in it when the
  evaluated batch is a view of it.
\<close>

definition passed_back :: "('a, 'es, 'x) lib \<Rightarrow> 'a tensor \<Rightarrow> 'a pyobj \<Rightarrow> 'a pyobj" where
  "passed_back l X0 b =
     (case b of
        NdArray a \<Rightarrow>
          if X_is_view X0 a then NdArray (a\<lparr>np_data := X_written l (batch_of l X0 a)\<rparr>)
          else b
      | _ \<Rightarrow> b)"

text \<open>Two tensors that differ at most in their elements.\<close>

definition same_but_data :: "'a tensor \<Rightarrow> 'a tensor \<Rightarrow> bool" where
  "same_but_data t t' =
     (device t = device t' \<and> dtype t = dtype t' \<and> shape t = shape t'
      \<and> requires_grad t = requires_grad t')"

text \<open>
  \<open>loop_steps l s r s' evs\<close>: started with the variables \<open>s\<close>, the loop ends with the
  variables \<open>s'\<close> and with \<open>r\<close> (the exception that ended it, if any) after the external
  calls \<open>evs\<close>. It is derived from \<open>optimization_loop\<close> below and used to reason about the
  traces by rule induction.
\<close>

inductive loop_steps ::
  "('a::uminus, 'es, 'x) lib \<Rightarrow> ('a, 'es, 'z) vars_scheme \<Rightarrow> 'x exn option
     \<Rightarrow> ('a, 'es, 'z) vars_scheme \<Rightarrow> ('a, 'x) trace \<Rightarrow> bool"
  for l :: "('a::uminus, 'es, 'x) lib" where
    stop_true: "stop l (es s) = Inr (True, es1) \<Longrightarrow>
      loop_steps l s None (optimizer_called l (s\<lparr>es := es1\<rparr>)) [(Stop, RetBool True)]"
  | stop_raised: "stop l (es s) = Inl e \<Longrightarrow>
      loop_steps l s (Some e) s [(Stop, Raised e)]"
  | body_raised: "stop l (es s) = Inr (False, es1) \<Longrightarrow>
      iteration l (optimizer_called l (s\<lparr>es := es1\<rparr>)) [] = (Some e, s2, evs) \<Longrightarrow>
      loop_steps l s (Some e) s2 ((Stop, RetBool False) # evs)"
  | again: "stop l (es s) = Inr (False, es1) \<Longrightarrow>
      iteration l (optimizer_called l (s\<lparr>es := es1\<rparr>)) [] = (None, s2, evs) \<Longrightarrow>
      loop_steps l s2 r s3 evs' \<Longrightarrow>
      loop_steps l s r s3 ((Stop, RetBool False) # evs @ evs')"

inductive run_steps ::
  "('a::uminus, 'es, 'x) lib \<Rightarrow> ('a, 'es, 'z) vars_scheme \<Rightarrow> 'x exn option
     \<Rightarrow> ('a, 'es, 'z) vars_scheme \<Rightarrow> ('a, 'x) trace \<Rightarrow> bool"
  for l :: "('a::uminus, 'es, 'x) lib" and s :: "('a, 'es, 'z) vars_scheme" where
    x0_raised: "requires_grad (X_init s) \<Longrightarrow> run_steps l s (Some RuntimeError) s []"
  | construct_raised: "\<not> requires_grad (X_init s) \<Longrightarrow>
      CMAEvolutionStrategy l (x0_of l (X_init s)) sigma0 inopts = Inl e \<Longrightarrow>
      run_steps l s (Some e) (s\<lparr>x0 := x0_of l (X_init s)\<rparr>)
        [(Construct (x0_of l (X_init s)) sigma0 inopts, Raised e)]"
  | loop_raised: "\<not> requires_grad (X_init s) \<Longrightarrow>
      CMAEvolutionStrategy l (x0_of l (X_init s)) sigma0 inopts = Inr es0 \<Longrightarrow>
      loop_steps l (optimizer_called l (s\<lparr>x0 := x0_of l (X_init s), es := es0\<rparr>)) (Some e) s2 evs \<Longrightarrow>
      run_steps l s (Some e) s2 ((Construct (x0_of l (X_init s)) sigma0 inopts, Done) # evs)"
  | best_raised: "\<not> requires_grad (X_init s) \<Longrightarrow>
      CMAEvolutionStrategy l (x0_of l (X_init s)) sigma0 inopts = Inr es0 \<Longrightarrow>
      loop_steps l (optimizer_called l (s\<lparr>x0 := x0_of l (X_init s), es := es0\<rparr>)) None s2 evs \<Longrightarrow>
      best l (es s2) = Inl e \<Longrightarrow>
      run_steps l s (Some e) s2
        ((Construct (x0_of l (X_init s)) sigma0 inopts, Done) # evs @ [(Best, Raised e)])"
  | best_not_array: "\<not> requires_grad (X_init s) \<Longrightarrow>
      CMAEvolutionStrategy l (x0_of l (X_init s)) sigma0 inopts = Inr es0 \<Longrightarrow>
      loop_steps l (optimizer_called l (s\<lparr>x0 := x0_of l (X_init s), es := es0\<rparr>)) None s2 evs \<Longrightarrow>
      best l (es s2) = Inr bx \<Longrightarrow> \<forall>b. bx \<noteq> NdArray b \<Longrightarrow>
      run_steps l s (Some TypeError) s2
        ((Construct (x0_of l (X_init s)) sigma0 inopts, Done) # evs @ [(Best, RetObj bx)])"
  | finished: "\<not> requires_grad (X_init s) \<Longrightarrow>
      CMAEvolutionStrategy l (x0_of l (X_init s)) sigma0 inopts = Inr es0 \<Longrightarrow>
      loop_steps l (optimizer_called l (s\<lparr>x0 := x0_of l (X_init s), es := es0\<rparr>)) None s2 evs \<Longrightarrow>
      best l (es s2) = Inr (NdArray b) \<Longrightarrow>
      run_steps l s None (s2\<lparr>best_x := batch_of l (X_init s) b\<rparr>)
        ((Construct (x0_of l (X_init s)) sigma0 inopts, Done) # evs
           @ [(Best, RetObj (NdArray b))])"

subsection \<open>Reading a trace\<close>

datatype kind = KConstruct | KStop | KAsk | KAcq | KTell | KBest

fun kind_of :: "'a call \<Rightarrow> kind" where
  "kind_of (Construct a sg opts) = KConstruct"
| "kind_of Stop = KStop"
| "kind_of Ask = KAsk"
| "kind_of (Acq t) = KAcq"
| "kind_of (Tell b sc) = KTell"
| "kind_of Best = KBest"

text \<open>The kinds of the calls of a trace, in order.\<close>

fun kinds :: "('a, 'x) trace \<Rightarrow> kind list" where
  "kinds [] = []"
| "kinds ((c, out) # tr) = kind_of c # kinds tr"

text \<open>The answers of the stopping predicate, in order.\<close>

fun stop_answers :: "('a, 'x) trace \<Rightarrow> bool list" where
  "stop_answers [] = []"
| "stop_answers ((Stop, RetBool b) # tr) = b # stop_answers tr"
| "stop_answers (ev # tr) = stop_answers tr"

text \<open>
  \<open>gated go tr\<close>: in the loop's trace \<open>tr\<close>, an ask is issued exactly after a stop that
  answered false (\<open>go\<close> says that such an answer is waiting for its ask), and nothing
  follows a stop that answered true or raised.
\<close>

fun gated :: "bool \<Rightarrow> ('a, 'x) trace \<Rightarrow> bool" where
  "gated go [] = (\<not> go)"
| "gated go ((Stop, RetBool False) # tr) = (\<not> go \<and> gated True tr)"
| "gated go ((Stop, out) # tr) = (\<not> go \<and> tr = [])"
| "gated go ((Ask, out) # tr) = (go \<and> gated False tr)"
| "gated go (ev # tr) = (\<not> go \<and> gated False tr)"

text \<open>
  \<open>alternates passes pending tr\<close>: asks and tells alternate in \<open>tr\<close>, starting with an ask
  when nothing is pending, and every tell is passed an object \<open>b\<close> with \<open>passes a b\<close>,
  where \<open>a\<close> is what the ask before it returned. With equality for \<open>passes\<close>, every tell
  passes exactly what was asked, its elements included.
\<close>

fun alternates ::
  "('a pyobj \<Rightarrow> 'a pyobj \<Rightarrow> bool) \<Rightarrow> 'a pyobj option \<Rightarrow> ('a, 'x) trace \<Rightarrow> bool" where
  "alternates passes pending [] = True"
| "alternates passes pending ((Ask, RetObj a) # tr) =
     (pending = None \<and> alternates passes (Some a) tr)"
| "alternates passes pending ((Ask, out) # tr) = (pending = None \<and> alternates passes None tr)"
| "alternates passes pending ((Tell b sc, out) # tr) =
     ((case pending of None \<Rightarrow> False | Some a \<Rightarrow> passes a b) \<and> alternates passes None tr)"
| "alternates passes pending (ev # tr) = alternates passes pending tr"

text \<open>
  The variables when the loop tests its condition for the \<open>n\<close>-th time after the first, if
  the loop gets that far.
\<close>

fun vars_after ::
  "('a::uminus, 'es, 'x) lib \<Rightarrow> nat \<Rightarrow> ('a, 'es, 'z) vars_scheme
     \<Rightarrow> ('a, 'es, 'z) vars_scheme option" where
  "vars_after l 0 s = Some s"
| "vars_after l (Suc n) s =
     (case stop_test l s [] of
        (Inr False, s1, tr1) \<Rightarrow>
          (case iteration l s1 [] of
             (None, s2, tr2) \<Rightarrow> vars_after l n s2
           | (Some e, s2, tr2) \<Rightarrow> None)
      | _ \<Rightarrow> None)"

subsection \<open>Batched and one-by-one evaluation\<close>

text \<open>
  The two evaluation lines of the loop body, \<^verbatim>\<open>Y = - acq_func(X)\<close> and
  \<^verbatim>\<open>y = Y.view(-1).double().numpy()\<close>, as a function of the batch.
\<close>

definition evaluate :: "('a::uminus, 'es, 'x) lib \<Rightarrow> 'a tensor \<Rightarrow> 'x exn + 'a ndarray" where
  "evaluate l t =
     (case acq_func l t of
        Inl e \<Rightarrow> Inl e
      | Inr A \<Rightarrow> numpy (double l (view_flat (neg A))))"

definition batch_size :: "'a tensor \<Rightarrow> nat" where
  "batch_size t = (case shape t of [] \<Rightarrow> 0 | n # ds \<Rightarrow> n)"

definition row_size :: "'a tensor \<Rightarrow> nat" where
  "row_size t = prod_list (tl (shape t))"

text \<open>The \<open>i\<close>-th candidate of a batch, as a batch of one.\<close>

definition candidate :: "'a tensor \<Rightarrow> nat \<Rightarrow> 'a tensor" where
  "candidate t i = t\<lparr>shape := 1 # tl (shape t),
                      data := take (row_size t) (drop (i * row_size t) (data t))\<rparr>"

fun collect :: "('x exn + 'a ndarray) list \<Rightarrow> 'x exn + 'a list" where
  "collect [] = Inr []"
| "collect (r # rs) =
     (case r of
        Inl e \<Rightarrow> Inl e
      | Inr sc \<Rightarrow> (case collect rs of Inl e \<Rightarrow> Inl e | Inr scs \<Rightarrow> Inr (np_data sc @ scs)))"

text \<open>
  What the specification compares the batched call with: every candidate evaluated on its
  own, the scores collected in order.
\<close>

definition one_by_one :: "('a::uminus, 'es, 'x) lib \<Rightarrow> 'a tensor \<Rightarrow> 'x exn + 'a list" where
  "one_by_one l t = collect (map (\<lambda>i. evaluate l (candidate t i)) [0..<batch_size t])"

text \<open>
  The acquisition function acts pointwise on the batch \<open>t\<close>: it returns one score per
  candidate, and the \<open>i\<close>-th score is the one it returns for the \<open>i\<close>-th candidate alone.
\<close>

definition acts_pointwise :: "('a, 'es, 'x) lib \<Rightarrow> 'a tensor \<Rightarrow> bool" where
  "acts_pointwise l t =
     (case acq_func l t of
        Inl e \<Rightarrow> False
      | Inr A \<Rightarrow>
          length (data A) = batch_size t \<and>
          list_all (\<lambda>i. case acq_func l (candidate t i) of
                           Inl e \<Rightarrow> False
                         | Inr Ai \<Rightarrow> data Ai = [data A ! i] \<and> dtype Ai = dtype A
                                     \<and> device Ai = device A)
                   [0..<batch_size t])"

subsection \<open>Example libraries\<close>

text \<open>
  An optimizer that counts the tells it has received and stops after the first, proposing
  the two one-dimensional candidates 0 and 1; the acquisition function scores a candidate
  by its coordinate. Neither writes into what it is passed.
\<close>

definition demo_xs :: "int ndarray" where
  "demo_xs = \<lparr>np_dtype = Float64, np_shape = [2, 1], np_data = [0, 1]\<rparr>"

definition demo_best :: "int ndarray" where
  "demo_best = \<lparr>np_dtype = Float64, np_shape = [1], np_data = [1]\<rparr>"

definition demo_lib :: "(int, nat, unit) lib" where
  "demo_lib = \<lparr>
     cast = (\<lambda>d d' v. v),
     CMAEvolutionStrategy = (\<lambda>a sg opts. Inr 0),
     stop = (\<lambda>n. Inr (1 \<le> n, n)),
     ask = (\<lambda>n. Inr (NdArray demo_xs, n)),
     tell = (\<lambda>n b sc. Inr (Suc n)),
     best = (\<lambda>n. Inr (NdArray demo_best)),
     acq_func = (\<lambda>t. Inr (t\<lparr>shape := [batch_size t]\<rparr>)),
     x0_written = (\<lambda>e c. c),
     X_written = data\<rparr>"

definition X_demo :: "int tensor" where
  "X_demo = \<lparr>device = CPU, dtype = Float32, shape = [1], data = [0], requires_grad = False\<rparr>"

definition demo_x0 :: "int ndarray" where
  "demo_x0 = \<lparr>np_dtype = Float64, np_shape = [1], np_data = [0]\<rparr>"

definition demo_X :: "int tensor" where
  "demo_X = \<lparr>device = CPU, dtype = Float32, shape = [2, 1], data = [0, 1],
               requires_grad = False\<rparr>"

definition demo_A :: "int tensor" where
  "demo_A = \<lparr>device = CPU, dtype = Float32, shape = [2], data = [0, 1],
               requires_grad = False\<rparr>"

definition demo_Y :: "int tensor" where
  "demo_Y = \<lparr>device = CPU, dtype = Float32, shape = [2], data = [0, - 1],
               requires_grad = False\<rparr>"

definition demo_y :: "int ndarray" where
  "demo_y = \<lparr>np_dtype = Float64, np_shape = [2], np_data = [0, - 1]\<rparr>"

definition demo_result :: "int tensor" where
  "demo_result = \<lparr>device = CPU, dtype = Float32, shape = [1], data = [1],
                    requires_grad = False\<rparr>"

text \<open>
  The variables before the cell runs: only \<open>X_init\<close> matters, the others hold whatever
  they held.
\<close>

definition demo_start :: "(int, nat) vars" where
  "demo_start = \<lparr>X_init = X_demo, x0 = demo_best, es = 7, xs = PyNone, X = X_demo,
                   Y = X_demo, y = demo_best, best_x = X_demo\<rparr>"

definition demo_end :: "(int, nat) vars" where
  "demo_end = \<lparr>X_init = X_demo, x0 = demo_x0, es = 1, xs = NdArray demo_xs, X = demo_X,
                 Y = demo_Y, y = demo_y, best_x = demo_result\<rparr>"

definition demo_trace :: "(int, unit) trace" where
  "demo_trace =
     [(Construct demo_x0 (1 / 4) [(''bounds'', OptList [0, 1]), (''popsize'', OptInt 100)], Done),
      (Stop, RetBool False),
      (Ask, RetObj (NdArray demo_xs)),
      (Acq demo_X, RetTensor demo_A),
      (Tell (NdArray demo_xs) demo_y, Done),
      (Stop, RetBool True),
      (Best, RetObj (NdArray demo_best))]"

text \<open>The same, with an acquisition function that raises.\<close>

definition raising_lib :: "(int, nat, unit) lib" where
  "raising_lib = demo_lib\<lparr>acq_func := (\<lambda>t. Inl (External ()))\<rparr>"

definition raising_end :: "(int, nat) vars" where
  "raising_end = \<lparr>X_init = X_demo, x0 = demo_x0, es = 0, xs = NdArray demo_xs, X = demo_X,
                    Y = X_demo, y = demo_best, best_x = X_demo\<rparr>"


text \<open>The same, with an acquisition function that returns one score for the whole batch.\<close>

definition scalar_lib :: "(int, nat, unit) lib" where
  "scalar_lib = demo_lib\<lparr>acq_func := (\<lambda>t. Inr (t\<lparr>shape := [], data := [sum_list (data t)]\<rparr>))\<rparr>"

definition scalar_A :: "int tensor" where
  "scalar_A = \<lparr>device = CPU, dtype = Float32, shape = [], data = [1],
                 requires_grad = False\<rparr>"

definition scalar_y :: "int ndarray" where
  "scalar_y = \<lparr>np_dtype = Float64, np_shape = [1], np_data = [- 1]\<rparr>"

definition scalar_end :: "(int, nat) vars" where
  "scalar_end = demo_end\<lparr>Y := scalar_A\<lparr>data := [- 1]\<rparr>, y := scalar_y\<rparr>"

definition scalar_trace :: "(int, unit) trace" where
  "scalar_trace =
     [(Construct demo_x0 (1 / 4) [(''bounds'', OptList [0, 1]), (''popsize'', OptInt 100)], Done),
      (Stop, RetBool False),
      (Ask, RetObj (NdArray demo_xs)),
      (Acq demo_X, RetTensor scalar_A),
      (Tell (NdArray demo_xs) scalar_y, Done),
      (Stop, RetBool True),
      (Best, RetObj (NdArray demo_best))]"

text \<open>
  An initial point on the CPU that holds doubles: \<open>x0\<close> is a view of it, and the evaluated
  batch is a view of the asked array.
\<close>

definition X_shared :: "int tensor" where
  "X_shared = \<lparr>device = CPU, dtype = Float64, shape = [1], data = [0], requires_grad = False\<rparr>"

definition shared_start :: "(int, nat) vars" where
  "shared_start = demo_start\<lparr>X_init := X_shared\<rparr>"

definition shared_X :: "int tensor" where
  "shared_X = \<lparr>device = CPU, dtype = Float64, shape = [2, 1], data = [0, 1],
                 requires_grad = False\<rparr>"

definition shared_A :: "int tensor" where
  "shared_A = \<lparr>device = CPU, dtype = Float64, shape = [2], data = [0, 1],
                 requires_grad = False\<rparr>"

definition shared_trace :: "int ndarray \<Rightarrow> (int, unit) trace" where
  "shared_trace b =
     [(Construct demo_x0 (1 / 4) [(''bounds'', OptList [0, 1]), (''popsize'', OptInt 100)], Done),
      (Stop, RetBool False),
      (Ask, RetObj (NdArray demo_xs)),
      (Acq shared_X, RetTensor shared_A),
      (Tell (NdArray b) demo_y, Done),
      (Stop, RetBool True),
      (Best, RetObj (NdArray demo_best))]"

text \<open>
  The demo libraries with an acquisition function that, having computed its scores,
  overwrites the batch it was given with nines.
\<close>

definition scribbling_lib :: "(int, nat, unit) lib" where
  "scribbling_lib = demo_lib\<lparr>X_written := (\<lambda>t. map (\<lambda>v. 9) (data t))\<rparr>"

definition scribbled_xs :: "int ndarray" where
  "scribbled_xs = \<lparr>np_dtype = Float64, np_shape = [2, 1], np_data = [9, 9]\<rparr>"

definition scribbled_end :: "(int, nat) vars" where
  "scribbled_end = \<lparr>X_init = X_shared, x0 = demo_x0, es = 1, xs = NdArray scribbled_xs,
                      X = shared_X\<lparr>data := [9, 9]\<rparr>, Y = shared_A\<lparr>data := [0, - 1]\<rparr>,
                      y = demo_y, best_x = X_shared\<lparr>data := [1]\<rparr>\<rparr>"

text \<open>
  The demo libraries with an optimizer that overwrites the array it was constructed with
  with fives.
\<close>

definition overwriting_lib :: "(int, nat, unit) lib" where
  "overwriting_lib = demo_lib\<lparr>x0_written := (\<lambda>e c. map (\<lambda>v. 5) c)\<rparr>"

definition overwritten_end :: "(int, nat) vars" where
  "overwritten_end = \<lparr>X_init = X_shared\<lparr>data := [5]\<rparr>, x0 = demo_x0\<lparr>np_data := [5]\<rparr>,
                        es = 1, xs = NdArray demo_xs, X = shared_X,
                        Y = shared_A\<lparr>data := [0, - 1]\<rparr>, y = demo_y,
                        best_x = X_shared\<lparr>data := [1]\<rparr>\<rparr>"

text \<open>
  The demo libraries with a call that raises: the constructor, the stopping predicate
  at its second call, \<open>ask\<close>, \<open>tell\<close>, and the read of the best point.
\<close>

definition construct_raising_lib :: "(int, nat, unit) lib" where
  "construct_raising_lib = demo_lib\<lparr>CMAEvolutionStrategy := (\<lambda>a sg opts. Inl (External ()))\<rparr>"

definition stop_raising_lib :: "(int, nat, unit) lib" where
  "stop_raising_lib =
     demo_lib\<lparr>stop := (\<lambda>n. if 1 \<le> n then Inl (External ()) else Inr (False, n))\<rparr>"

definition ask_raising_lib :: "(int, nat, unit) lib" where
  "ask_raising_lib = demo_lib\<lparr>ask := (\<lambda>n. Inl (External ()))\<rparr>"

definition tell_raising_lib :: "(int, nat, unit) lib" where
  "tell_raising_lib = demo_lib\<lparr>tell := (\<lambda>n b sc. Inl (External ()))\<rparr>"

definition best_raising_lib :: "(int, nat, unit) lib" where
  "best_raising_lib = demo_lib\<lparr>best := (\<lambda>n. Inl (External ()))\<rparr>"

text \<open>The variables after the constructor, and after the first iteration.\<close>

definition demo_constructed :: "(int, nat) vars" where
  "demo_constructed = demo_start\<lparr>x0 := demo_x0, es := 0\<rparr>"

definition demo_iterated :: "(int, nat) vars" where
  "demo_iterated = demo_end\<lparr>best_x := X_demo\<rparr>"

section \<open>The loop and the cell follow the relations\<close>

lemmas stmt_defs = iteration_def seq_def assign_xs_def assign_X_def assign_Y_def assign_y_def
  call_tell_def extern_def compute_def

text \<open>The trace that an iteration starts with is only extended.\<close>

lemma iteration_append:
  "iteration l s tr =
     (case iteration l s [] of (r, s2, evs) \<Rightarrow> (r, s2, tr @ evs))"
  by (simp add: stmt_defs split: sum.splits prod.splits)

lemma iteration_from:
  "iteration l s [] = (r, s2, evs) \<Longrightarrow> iteration l s tr = (r, s2, tr @ evs)"
  using iteration_append [of l s tr] by simp

text \<open>What the write-through leaves alone.\<close>

lemma optimizer_called_fields:
  "es (optimizer_called l s) = es s" "xs (optimizer_called l s) = xs s"
  "X (optimizer_called l s) = X s" "Y (optimizer_called l s) = Y s"
  "y (optimizer_called l s) = y s" "best_x (optimizer_called l s) = best_x s"
  "vars.more (optimizer_called l s) = vars.more s"
  "device (X_init (optimizer_called l s)) = device (X_init s)"
  "dtype (X_init (optimizer_called l s)) = dtype (X_init s)"
  "shape (X_init (optimizer_called l s)) = shape (X_init s)"
  "requires_grad (X_init (optimizer_called l s)) = requires_grad (X_init s)"
  by (simp_all add: optimizer_called_def)

lemma acq_called_fields:
  "es (acq_called l s) = es s" "Y (acq_called l s) = Y s" "y (acq_called l s) = y s"
  "x0 (acq_called l s) = x0 s" "X_init (acq_called l s) = X_init s"
  "best_x (acq_called l s) = best_x s" "vars.more (acq_called l s) = vars.more s"
  by (simp_all add: acq_called_def)

lemma acq_called_X: "X (acq_called l s) = (X s)\<lparr>data := X_written l (X s)\<rparr>"
  by (simp add: acq_called_def)

lemma acq_called_xs:
  "xs s = NdArray a \<Longrightarrow> X s = batch_of l (X_init s) a \<Longrightarrow>
     xs (acq_called l s) = passed_back l (X_init s) (NdArray a)"
  by (simp add: acq_called_def passed_back_def)

lemma same_meta:
  assumes "same_but_data t t'"
  shows "batch_of l t a = batch_of l t' a" "passed_back l t b = passed_back l t' b"
    "x0_is_view t = x0_is_view t'" "X_is_view t a = X_is_view t' a"
  using assms
  by (simp_all add: same_but_data_def batch_of_def passed_back_def x0_is_view_def X_is_view_def
      split: pyobj.splits)

lemma same_but_data_refl: "same_but_data t t"
  by (simp add: same_but_data_def)

lemma optimizer_called_views:
  "batch_of l' (X_init (optimizer_called l s)) a = batch_of l' (X_init s) a"
  "passed_back l' (X_init (optimizer_called l s)) b = passed_back l' (X_init s) b"
  "x0_is_view (X_init (optimizer_called l s)) = x0_is_view (X_init s)"
  "X_is_view (X_init (optimizer_called l s)) a = X_is_view (X_init s) a"
  by (simp_all add: optimizer_called_fields batch_of_def passed_back_def x0_is_view_def
      X_is_view_def split: pyobj.splits)

text \<open>
  No statement of the loop moves or reshapes \<open>X_init\<close>, or changes anything outside the
  cell's variables.
\<close>

lemma iteration_frame:
  "iteration l s tr = (r, s2, tr2) \<Longrightarrow>
     same_but_data (X_init s2) (X_init s) \<and> vars.more s2 = vars.more s"
  by (auto simp: stmt_defs optimizer_called_fields acq_called_fields same_but_data_def
      split: sum.splits prod.splits)

text \<open>A completed iteration: one ask, one call of the acquisition function, one tell.\<close>

lemma iteration_None:
  assumes "iteration l s [] = (None, s2, evs)"
  shows "\<exists>a es1 A es2. ask l (es s) = Inr (NdArray a, es1)
      \<and> acq_func l (batch_of l (X_init s) a) = Inr A
      \<and> device A = CPU
      \<and> tell l es1 (passed_back l (X_init s) (NdArray a)) (scores_of l A) = Inr es2
      \<and> es s2 = es2
      \<and> xs s2 = passed_back l (X_init s) (NdArray a)
      \<and> data (X s2) = X_written l (batch_of l (X_init s) a)
      \<and> evs = [(Ask, RetObj (NdArray a)),
               (Acq (batch_of l (X_init s) a), RetTensor A),
               (Tell (passed_back l (X_init s) (NdArray a)) (scores_of l A), Done)]"
  using assms
  by (auto simp add: stmt_defs from_numpy_def batch_of_def scores_of_def
      optimizer_called_fields optimizer_called_views acq_called_fields acq_called_xs
      acq_called_X
      numpy_def double_def to_dtype_def view_flat_def neg_def numel_def
      split: sum.splits prod.splits pyobj.splits if_splits)

text \<open>An iteration that raises: the five places where it can.\<close>

lemma iteration_Some:
  assumes "iteration l s [] = (Some e, s2, evs)"
  shows "(ask l (es s) = Inl e \<and> evs = [(Ask, Raised e)])
    \<or> (\<exists>b es1. ask l (es s) = Inr (b, es1) \<and> (\<forall>a. b \<noteq> NdArray a) \<and> e = TypeError
          \<and> evs = [(Ask, RetObj b)])
    \<or> (\<exists>a es1. ask l (es s) = Inr (NdArray a, es1)
          \<and> acq_func l (batch_of l (X_init s) a) = Inl e
          \<and> evs = [(Ask, RetObj (NdArray a)), (Acq (batch_of l (X_init s) a), Raised e)])
    \<or> (\<exists>a es1 A. ask l (es s) = Inr (NdArray a, es1)
          \<and> acq_func l (batch_of l (X_init s) a) = Inr A
          \<and> device A \<noteq> CPU \<and> e = TypeError
          \<and> evs = [(Ask, RetObj (NdArray a)), (Acq (batch_of l (X_init s) a), RetTensor A)])
    \<or> (\<exists>a es1 A. ask l (es s) = Inr (NdArray a, es1)
          \<and> acq_func l (batch_of l (X_init s) a) = Inr A
          \<and> device A = CPU
          \<and> tell l es1 (passed_back l (X_init s) (NdArray a)) (scores_of l A) = Inl e
          \<and> evs = [(Ask, RetObj (NdArray a)),
                   (Acq (batch_of l (X_init s) a), RetTensor A),
                   (Tell (passed_back l (X_init s) (NdArray a)) (scores_of l A), Raised e)])"
  using assms
  by (auto simp add: stmt_defs from_numpy_def batch_of_def scores_of_def
      optimizer_called_fields optimizer_called_views acq_called_fields acq_called_xs
      numpy_def double_def to_dtype_def view_flat_def neg_def numel_def
      split: sum.splits prod.splits pyobj.splits if_splits)


lemma loop_steps_frame:
  "loop_steps l s r s2 evs \<Longrightarrow>
     same_but_data (X_init s2) (X_init s) \<and> vars.more s2 = vars.more s"
proof (induction rule: loop_steps.induct)
  case (stop_true s es1)
  show ?case by (simp add: same_but_data_def optimizer_called_fields)
next
  case (stop_raised s e)
  show ?case by (simp add: same_but_data_def)
next
  case (body_raised s es1 e s2 evs)
  from iteration_frame [OF body_raised(2)] show ?case
    by (simp add: same_but_data_def optimizer_called_fields)
next
  case (again s es1 s2 evs r s3 evs')
  from iteration_frame [OF again(2)] again.IH show ?case
    by (simp add: same_but_data_def optimizer_called_fields)
qed

lemma loop_steps_complete:
  "loop_steps l s r s2 evs \<Longrightarrow> optimization_loop l s tr = Some (r, s2, tr @ evs)"
proof (induction arbitrary: tr rule: loop_steps.induct)
  case (stop_true s es1)
  then show ?case by (subst optimization_loop.simps) (simp add: stop_test_def)
next
  case (stop_raised s e)
  then show ?case by (subst optimization_loop.simps) (simp add: stop_test_def)
next
  case (body_raised s es1 e s2 evs)
  from body_raised(2)
  have "iteration l (optimizer_called l (s\<lparr>es := es1\<rparr>)) (tr @ [(Stop, RetBool False)])
      = (Some e, s2, (tr @ [(Stop, RetBool False)]) @ evs)"
    by (rule iteration_from)
  with body_raised(1) show ?case by (subst optimization_loop.simps) (simp add: stop_test_def)
next
  case (again s es1 s2 evs r s3 evs')
  from again(2)
  have "iteration l (optimizer_called l (s\<lparr>es := es1\<rparr>)) (tr @ [(Stop, RetBool False)])
      = (None, s2, (tr @ [(Stop, RetBool False)]) @ evs)"
    by (rule iteration_from)
  with again(1) again.IH [of "(tr @ [(Stop, RetBool False)]) @ evs"] show ?case
    by (subst optimization_loop.simps) (simp add: stop_test_def)
qed

lemma loop_steps_sound:
  assumes "optimization_loop l s tr = Some res"
  shows "\<exists>evs. snd (snd res) = tr @ evs \<and> loop_steps l s (fst res) (fst (snd res)) evs"
proof (rule optimization_loop.raw_induct [OF _ assms], goal_cases)
  case (1 loop l s tr res)
  show ?case
  proof (cases "stop l (es s)")
    case (Inl e)
    with 1(2) have "res = (Some e, s, tr @ [(Stop, Raised e)])" by (simp add: stop_test_def)
    with Inl show ?thesis by (auto intro: loop_steps.stop_raised)
  next
    case (Inr p)
    obtain b es1 where p: "p = (b, es1)" by (cases p)
    let ?s1 = "optimizer_called l (s\<lparr>es := es1\<rparr>)"
    show ?thesis
    proof (cases b)
      case True
      with 1(2) Inr p have "res = (None, ?s1, tr @ [(Stop, RetBool True)])"
        by (simp add: stop_test_def)
      with Inr p True show ?thesis by (auto intro: loop_steps.stop_true)
    next
      case False
      obtain r s2 evs where it: "iteration l ?s1 [] = (r, s2, evs)"
        by (cases "iteration l ?s1 []")
      then have it': "iteration l ?s1 (tr @ [(Stop, RetBool False)])
          = (r, s2, tr @ (Stop, RetBool False) # evs)"
        using iteration_from [OF it, of "tr @ [(Stop, RetBool False)]"] by simp
      show ?thesis
      proof (cases r)
        case (Some e)
        with 1(2) Inr p False it' have "res = (Some e, s2, tr @ (Stop, RetBool False) # evs)"
          by (simp add: stop_test_def)
        with Inr p False it Some show ?thesis by (auto intro: loop_steps.body_raised)
      next
        case None
        with 1(2) Inr p False it'
        have "loop l s2 (tr @ (Stop, RetBool False) # evs) = Some res"
          by (simp add: stop_test_def)
        from 1(1) [OF this] obtain evs' where
          evs': "snd (snd res) = (tr @ (Stop, RetBool False) # evs) @ evs'"
            "loop_steps l s2 (fst res) (fst (snd res)) evs'"
          by blast
        from Inr p False it None evs'(2)
        have "loop_steps l s (fst res) (fst (snd res)) ((Stop, RetBool False) # evs @ evs')"
          by (auto intro: loop_steps.again)
        with evs'(1) show ?thesis by auto
      qed
    qed
  qed
qed

lemma before_loop_cases:
  "seq (assign_x0 l) (assign_es l) s [] =
     (if requires_grad (X_init s) then (Some RuntimeError, s, [])
      else case CMAEvolutionStrategy l (x0_of l (X_init s)) sigma0 inopts of
             Inl e \<Rightarrow> (Some e, s\<lparr>x0 := x0_of l (X_init s)\<rparr>,
                        [(Construct (x0_of l (X_init s)) sigma0 inopts, Raised e)])
           | Inr es0 \<Rightarrow> (None, optimizer_called l (s\<lparr>x0 := x0_of l (X_init s), es := es0\<rparr>),
                          [(Construct (x0_of l (X_init s)) sigma0 inopts, Done)]))"
  by (simp add: seq_def assign_x0_def assign_es_def compute_def extern_def numpy_def double_def
      cpu_def to_device_def to_dtype_def x0_of_def split: sum.splits)

lemma after_loop_cases:
  "seq (assign_best_x l) (move_best_x l) s tr =
     (case best l (es s) of
        Inl e \<Rightarrow> (Some e, s, tr @ [(Best, Raised e)])
      | Inr bx \<Rightarrow> (case bx of
           NdArray b \<Rightarrow> (None, s\<lparr>best_x := batch_of l (X_init s) b\<rparr>, tr @ [(Best, RetObj bx)])
         | _ \<Rightarrow> (Some TypeError, s, tr @ [(Best, RetObj bx)])))"
  by (simp add: seq_def assign_best_x_def move_best_x_def compute_def from_numpy_def batch_of_def
      split: sum.splits pyobj.splits)

lemma run_steps_complete: "run_steps l s r s2 tr \<Longrightarrow> run l s = Some (r, s2, tr)"
proof (induction rule: run_steps.induct)
  case x0_raised
  then show ?case by (simp add: run_def before_loop_cases)
next
  case (construct_raised e)
  then show ?case by (simp add: run_def before_loop_cases)
next
  case (loop_raised es0 e s2 evs)
  from loop_steps_complete [OF loop_raised(3)] loop_raised(1,2) show ?case
    by (simp add: run_def before_loop_cases)
next
  case (best_raised es0 s2 evs e)
  from loop_steps_complete [OF best_raised(3)] best_raised(1,2,4) show ?case
    by (simp add: run_def before_loop_cases after_loop_cases)
next
  case (best_not_array es0 s2 evs bx)
  from loop_steps_complete [OF best_not_array(3)] best_not_array(1,2,4,5) show ?case
    by (cases bx) (simp_all add: run_def before_loop_cases after_loop_cases)
next
  case (finished es0 s2 evs b)
  from loop_steps_frame [OF finished(3)]
  have "same_but_data (X_init s2) (X_init s)"
    by (simp add: same_but_data_def optimizer_called_fields)
  from same_meta(1) [OF this] have "batch_of l (X_init s2) b = batch_of l (X_init s) b" .
  with loop_steps_complete [OF finished(3)] finished(1,2,4) show ?case
    by (simp add: run_def before_loop_cases after_loop_cases)
qed

lemma run_steps_sound:
  assumes "run l s = Some (r, s3, tr)"
  shows "run_steps l s r s3 tr"
proof (cases "requires_grad (X_init s)")
  case True
  with assms show ?thesis by (auto simp: run_def before_loop_cases intro: run_steps.x0_raised)
next
  case ng: False
  show ?thesis
  proof (cases "CMAEvolutionStrategy l (x0_of l (X_init s)) sigma0 inopts")
    case (Inl e)
    with assms ng show ?thesis
      by (auto simp: run_def before_loop_cases intro: run_steps.construct_raised)
  next
    case (Inr es0)
    let ?c = "(Construct (x0_of l (X_init s)) sigma0 inopts, Done)"
    let ?s1 = "optimizer_called l (s\<lparr>x0 := x0_of l (X_init s), es := es0\<rparr>)"
    from assms ng Inr obtain res where
      loop: "optimization_loop l ?s1 [?c] = Some res"
      by (cases "optimization_loop l ?s1 [?c]") (auto simp: run_def before_loop_cases)
    obtain r' s2 tr2 where res: "res = (r', s2, tr2)" by (cases res)
    from loop_steps_sound [OF loop] res obtain evs where
      evs: "tr2 = ?c # evs" "loop_steps l ?s1 r' s2 evs" by auto
    from loop_steps_frame [OF evs(2)] have "same_but_data (X_init s2) (X_init s)"
      by (simp add: same_but_data_def optimizer_called_fields)
    from same_meta(1) [OF this]
    have X2: "\<And>b. batch_of l (X_init s2) b = batch_of l (X_init s) b" .
    show ?thesis
    proof (cases r')
      case (Some e)
      with assms ng Inr loop res evs(1) have "r = Some e" "s3 = s2" "tr = ?c # evs"
        by (simp_all add: run_def before_loop_cases)
      with ng Inr evs(2) Some show ?thesis by (auto intro: run_steps.loop_raised)
    next
      case None
      with assms ng Inr loop res evs(1)
      have after: "seq (assign_best_x l) (move_best_x l) s2 (?c # evs) = (r, s3, tr)"
        by (simp add: run_def before_loop_cases)
      show ?thesis
      proof (cases "best l (es s2)")
        case (Inl e)
        with after have "r = Some e" "s3 = s2" "tr = ?c # evs @ [(Best, Raised e)]"
          by (simp_all add: after_loop_cases)
        with ng Inr evs(2) None Inl show ?thesis by (auto intro: run_steps.best_raised)
      next
        case bx: (Inr bx)
        show ?thesis
        proof (cases "\<exists>b. bx = NdArray b")
          case True
          then obtain b where b: "bx = NdArray b" by blast
          with after bx X2 have "r = None" "s3 = s2\<lparr>best_x := batch_of l (X_init s) b\<rparr>"
              "tr = ?c # evs @ [(Best, RetObj (NdArray b))]"
            by (simp_all add: after_loop_cases)
          with ng Inr evs(2) None bx b show ?thesis by (auto intro: run_steps.finished)
        next
          case False
          with after bx have "r = Some TypeError" "s3 = s2" "tr = ?c # evs @ [(Best, RetObj bx)]"
            by (cases bx; simp add: after_loop_cases)+
          with ng Inr evs(2) None bx False show ?thesis by (auto intro: run_steps.best_not_array)
        qed
      qed
    qed
  qed
qed

section \<open>The example runs\<close>

lemmas eval_defs = run_def stop_test_def assign_x0_def assign_es_def assign_best_x_def
  move_best_x_def stmt_defs numpy_def from_numpy_def tensor_of_def to_def to_device_def
  to_dtype_def convert_def double_def cpu_def neg_def view_flat_def numel_def batch_size_def
  optimizer_called_def acq_called_def x0_is_view_def X_is_view_def
  sigma0_def inopts_def demo_lib_def X_demo_def demo_xs_def demo_best_def
  raising_lib_def scalar_lib_def demo_x0_def demo_X_def demo_A_def demo_Y_def demo_y_def
  scalar_A_def scalar_y_def demo_start_def demo_end_def demo_result_def raising_end_def
  scalar_end_def

lemma demo_run: "run demo_lib demo_start = Some (None, demo_end, demo_trace)"
  by (simp add: eval_defs demo_trace_def optimization_loop.simps)


lemma scalar_run: "run scalar_lib demo_start = Some (None, scalar_end, scalar_trace)"
  by (simp add: eval_defs scalar_trace_def optimization_loop.simps)

lemmas example_defs = eval_defs X_shared_def shared_start_def shared_X_def shared_A_def
  scribbling_lib_def scribbled_xs_def scribbled_end_def overwriting_lib_def overwritten_end_def
  construct_raising_lib_def stop_raising_lib_def ask_raising_lib_def tell_raising_lib_def
  best_raising_lib_def demo_constructed_def demo_iterated_def

lemma scribbling_run:
  "run scribbling_lib shared_start = Some (None, scribbled_end, shared_trace scribbled_xs)"
  by (simp add: example_defs shared_trace_def optimization_loop.simps)


lemma demo_loop:
  "optimization_loop demo_lib demo_constructed [] 
     = Some (None, demo_iterated, drop 1 (take 6 demo_trace))"
  by (simp add: example_defs demo_trace_def optimization_loop.simps)

section \<open>Properties of the traces\<close>

text \<open>Where an event can stand in a trace of the shape \<open>c # evs @ fin\<close>.\<close>

lemma split_framed:
  "c # evs @ fin = pre @ ev # post \<Longrightarrow>
     (pre = [] \<and> ev = c)
   \<or> (\<exists>pre2 post2. pre = c # pre2 \<and> evs = pre2 @ ev # post2 \<and> post = post2 @ fin)
   \<or> (\<exists>pre3. pre = c # evs @ pre3 \<and> fin = pre3 @ ev # post)"
  by (auto simp: Cons_eq_append_conv append_eq_append_conv2 append_eq_Cons_conv)

text \<open>
  One round of the loop after a stop that answered false, read against a tensor \<open>X0\<close> that
  differs from \<open>X_init\<close> at most in its elements.
\<close>

lemma round_completed:
  assumes "iteration l (optimizer_called l (s\<lparr>es := es1\<rparr>)) [] = (None, s2, evs)"
    and "same_but_data (X_init s) X0"
  shows "\<exists>a A es2. ask l es1 = Inr (NdArray a, es2)
      \<and> acq_func l (batch_of l X0 a) = Inr A
      \<and> device A = CPU
      \<and> evs = [(Ask, RetObj (NdArray a)),
               (Acq (batch_of l X0 a), RetTensor A),
               (Tell (passed_back l X0 (NdArray a)) (scores_of l A), Done)]"
proof -
  have eq: "\<And>a. batch_of l (X_init s) a = batch_of l X0 a"
    "\<And>b. passed_back l (X_init s) b = passed_back l X0 b"
    by (simp_all add: same_meta [OF assms(2)])
  from iteration_None [OF assms(1)] show ?thesis
    by (auto simp: optimizer_called_fields optimizer_called_views eq)
qed

lemma round_raised:
  assumes "iteration l (optimizer_called l (s\<lparr>es := es1\<rparr>)) [] = (Some e, s2, evs)"
    and "same_but_data (X_init s) X0"
  shows "evs = [(Ask, Raised e)]
    \<or> (\<exists>b. evs = [(Ask, RetObj b)])
    \<or> (\<exists>a. evs = [(Ask, RetObj (NdArray a)), (Acq (batch_of l X0 a), Raised e)])
    \<or> (\<exists>a A. evs = [(Ask, RetObj (NdArray a)), (Acq (batch_of l X0 a), RetTensor A)])
    \<or> (\<exists>a A es2. ask l es1 = Inr (NdArray a, es2)
          \<and> acq_func l (batch_of l X0 a) = Inr A
          \<and> device A = CPU
          \<and> evs = [(Ask, RetObj (NdArray a)),
                   (Acq (batch_of l X0 a), RetTensor A),
                   (Tell (passed_back l X0 (NdArray a)) (scores_of l A), Raised e)])"
proof -
  have eq: "\<And>a. batch_of l (X_init s) a = batch_of l X0 a"
    "\<And>b. passed_back l (X_init s) b = passed_back l X0 b"
    by (simp_all add: same_meta [OF assms(2)])
  from iteration_Some [OF assms(1)] show ?thesis
    by (elim disjE exE conjE)
      (simp_all add: optimizer_called_fields optimizer_called_views eq)
qed

lemma round_frame:
  assumes "iteration l (optimizer_called l (s\<lparr>es := es1\<rparr>)) [] = (r, s2, evs)"
    and "same_but_data (X_init s) X0"
  shows "same_but_data (X_init s2) X0"
  using iteration_frame [OF assms(1)] assms(2)
  by (simp add: same_but_data_def optimizer_called_fields)

lemma alternates_loop:
  assumes "loop_steps l s r s2 evs" and "same_but_data (X_init s) X0"
    and "\<And>e a e'. ask l e = Inr (NdArray a, e') \<Longrightarrow>
           passes (NdArray a) (passed_back l X0 (NdArray a))"
  shows "alternates passes None evs
     \<and> (r = None \<longrightarrow> (\<forall>t. alternates passes None (evs @ t) = alternates passes None t))"
  using assms(1,2)
proof (induction rule: loop_steps.induct)
  case (stop_true s es1)
  show ?case by simp
next
  case (stop_raised s e)
  show ?case by simp
next
  case (body_raised s es1 e s2 evs)
  from round_raised [OF body_raised(2,3)] assms(3) show ?case
    by (elim disjE exE conjE) simp_all
next
  case (again s es1 s2 evs r s3 evs')
  from round_completed [OF again(2) again.prems] obtain a A es2 where
    "ask l es1 = Inr (NdArray a, es2)"
    "evs = [(Ask, RetObj (NdArray a)),
            (Acq (batch_of l X0 a), RetTensor A),
            (Tell (passed_back l X0 (NdArray a)) (scores_of l A), Done)]" by blast
  with again.IH [OF round_frame [OF again(2) again.prems]] assms(3) show ?case by simp
qed


text \<open>What stands before a tell and before a call of the acquisition function.\<close>

lemma tell_context_loop:
  "loop_steps l s r s2 evs \<Longrightarrow> same_but_data (X_init s) X0 \<Longrightarrow>
   evs = pre @ (Tell b sc, out) # post \<Longrightarrow>
     \<exists>a A pre'. b = passed_back l X0 (NdArray a)
       \<and> pre = pre' @ [(Ask, RetObj (NdArray a)), (Acq (batch_of l X0 a), RetTensor A)]
       \<and> acq_func l (batch_of l X0 a) = Inr A
       \<and> device A = CPU
       \<and> sc = scores_of l A"
proof (induction arbitrary: pre rule: loop_steps.induct)
  case (stop_true s es1)
  then show ?case by (simp add: Cons_eq_append_conv)
next
  case (stop_raised s e')
  then show ?case by (simp add: Cons_eq_append_conv)
next
  case (body_raised s es1 e' s2 evs)
  from round_raised [OF body_raised(2,3)] body_raised(4) show ?case
    by (elim disjE exE conjE) (auto simp: Cons_eq_append_conv)
next
  case (again s es1 s2 evs r s3 evs')
  note X2 = round_frame [OF again(2) again.prems(1)]
  from round_completed [OF again(2) again.prems(1)] obtain a A where
    it: "acq_func l (batch_of l X0 a) = Inr A" "device A = CPU"
      "evs = [(Ask, RetObj (NdArray a)), (Acq (batch_of l X0 a), RetTensor A),
              (Tell (passed_back l X0 (NdArray a)) (scores_of l A), Done)]"
    by auto
  from again.prems(2) it(3)
  consider (here) "pre = [(Stop, RetBool False), (Ask, RetObj (NdArray a)),
        (Acq (batch_of l X0 a), RetTensor A)]"
      "b = passed_back l X0 (NdArray a)" "sc = scores_of l A"
    | (later) pre2 where "pre = (Stop, RetBool False) # evs @ pre2"
        "evs' = pre2 @ (Tell b sc, out) # post"
    by (auto simp: Cons_eq_append_conv)
  then show ?case
  proof cases
    case here
    with it show ?thesis by auto
  next
    case later
    from again.IH [OF X2 later(2)] obtain a2 A2 pre' where
      "b = passed_back l X0 (NdArray a2)"
      "pre2 = pre' @ [(Ask, RetObj (NdArray a2)), (Acq (batch_of l X0 a2), RetTensor A2)]"
      "acq_func l (batch_of l X0 a2) = Inr A2" "device A2 = CPU"
      "sc = scores_of l A2"
      by auto
    with later(1) show ?thesis
      by (intro exI [of _ a2] exI [of _ A2] exI [of _ "(Stop, RetBool False) # evs @ pre'"]) simp
  qed
qed

lemma acq_context_loop:
  "loop_steps l s r s2 evs \<Longrightarrow> same_but_data (X_init s) X0 \<Longrightarrow>
   evs = pre @ (Acq t, out) # post \<Longrightarrow>
     \<exists>a pre'. pre = pre' @ [(Ask, RetObj (NdArray a))] \<and> t = batch_of l X0 a"
proof (induction arbitrary: pre rule: loop_steps.induct)
  case (stop_true s es1)
  then show ?case by (simp add: Cons_eq_append_conv)
next
  case (stop_raised s e')
  then show ?case by (simp add: Cons_eq_append_conv)
next
  case (body_raised s es1 e' s2 evs)
  from round_raised [OF body_raised(2,3)] body_raised(4) show ?case
    by (elim disjE exE conjE) (auto simp: Cons_eq_append_conv)
next
  case (again s es1 s2 evs r s3 evs')
  note X2 = round_frame [OF again(2) again.prems(1)]
  from round_completed [OF again(2) again.prems(1)] obtain a A where
    it: "evs = [(Ask, RetObj (NdArray a)), (Acq (batch_of l X0 a), RetTensor A),
                (Tell (passed_back l X0 (NdArray a)) (scores_of l A), Done)]"
    by auto
  from again.prems(2) it
  consider (here) "pre = [(Stop, RetBool False), (Ask, RetObj (NdArray a))]"
      "t = batch_of l X0 a"
    | (later) pre2 where "pre = (Stop, RetBool False) # evs @ pre2"
        "evs' = pre2 @ (Acq t, out) # post"
    by (auto simp: Cons_eq_append_conv)
  then show ?case
  proof cases
    case here
    then show ?thesis by auto
  next
    case later
    from again.IH [OF X2 later(2)] obtain a2 pre' where
      "pre2 = pre' @ [(Ask, RetObj (NdArray a2))]" "t = batch_of l X0 a2" by auto
    with later(1) show ?thesis
      by (intro exI [of _ a2] exI [of _ "(Stop, RetBool False) # evs @ pre'"]) simp
  qed
qed

lemma loop_kinds:
  "loop_steps l s r s2 evs \<Longrightarrow> (c, out) \<in> set evs \<Longrightarrow> kind_of c \<in> {KStop, KAsk, KAcq, KTell}"
proof (induction rule: loop_steps.induct)
  case (stop_true s es1)
  then show ?case by auto
next
  case (stop_raised s e')
  then show ?case by auto
next
  case (body_raised s es1 e' s2 evs)
  from round_raised [OF body_raised(2) same_but_data_refl] body_raised(3) show ?case
    by (elim disjE exE conjE) auto
next
  case (again s es1 s2 evs r s3 evs')
  from round_completed [OF again(2) same_but_data_refl] again.prems again.IH show ?case by auto
qed


lemma run_event_in_loop:
  assumes "run_steps l s r s3 tr" and "tr = pre @ (c, out) # post"
    and "kind_of c \<noteq> KConstruct" and "kind_of c \<noteq> KBest"
  shows "\<exists>s1 r' s2 evs pre2 post2. loop_steps l s1 r' s2 evs
     \<and> same_but_data (X_init s1) (X_init s)
     \<and> vars.more s1 = vars.more s
     \<and> pre = (Construct (x0_of l (X_init s)) sigma0 inopts, Done) # pre2
     \<and> evs = pre2 @ (c, out) # post2"
  using assms(1)
proof (cases rule: run_steps.cases)
  case x0_raised
  with assms(2) show ?thesis by simp
next
  case (construct_raised e')
  with assms(2,3) show ?thesis by (auto simp: Cons_eq_append_conv)
next
  case (loop_raised es0 e' evs)
  let ?s1 = "optimizer_called l (s\<lparr>x0 := x0_of l (X_init s), es := es0\<rparr>)"
  from loop_raised(2) assms(2)
  have "(Construct (x0_of l (X_init s)) sigma0 inopts, Done) # evs @ [] = pre @ (c, out) # post"
    by simp
  from split_framed [OF this] assms(3) obtain pre2 post2 where
    "pre = (Construct (x0_of l (X_init s)) sigma0 inopts, Done) # pre2"
    "evs = pre2 @ (c, out) # post2" by auto
  with loop_raised(5) show ?thesis
    by (intro exI [of _ ?s1] exI [of _ "Some e'"] exI [of _ s3] exI [of _ evs]
        exI [of _ pre2] exI [of _ post2])
      (simp add: same_but_data_def optimizer_called_fields)
next
  case (best_raised es0 evs e')
  let ?s1 = "optimizer_called l (s\<lparr>x0 := x0_of l (X_init s), es := es0\<rparr>)"
  from best_raised(2) assms(2)
  have "(Construct (x0_of l (X_init s)) sigma0 inopts, Done) # evs @ [(Best, Raised e')]
      = pre @ (c, out) # post" by simp
  from split_framed [OF this] assms(3,4) obtain pre2 post2 where
    "pre = (Construct (x0_of l (X_init s)) sigma0 inopts, Done) # pre2"
    "evs = pre2 @ (c, out) # post2" by (auto simp: Cons_eq_append_conv)
  with best_raised(5) show ?thesis
    by (intro exI [of _ ?s1] exI [of _ None] exI [of _ s3] exI [of _ evs]
        exI [of _ pre2] exI [of _ post2])
      (simp add: same_but_data_def optimizer_called_fields)
next
  case (best_not_array es0 evs bx)
  let ?s1 = "optimizer_called l (s\<lparr>x0 := x0_of l (X_init s), es := es0\<rparr>)"
  from best_not_array(2) assms(2)
  have "(Construct (x0_of l (X_init s)) sigma0 inopts, Done) # evs @ [(Best, RetObj bx)]
      = pre @ (c, out) # post" by simp
  from split_framed [OF this] assms(3,4) obtain pre2 post2 where
    "pre = (Construct (x0_of l (X_init s)) sigma0 inopts, Done) # pre2"
    "evs = pre2 @ (c, out) # post2" by (auto simp: Cons_eq_append_conv)
  with best_not_array(5) show ?thesis
    by (intro exI [of _ ?s1] exI [of _ None] exI [of _ s3] exI [of _ evs]
        exI [of _ pre2] exI [of _ post2])
      (simp add: same_but_data_def optimizer_called_fields)
next
  case (finished es0 s2 evs b)
  let ?s1 = "optimizer_called l (s\<lparr>x0 := x0_of l (X_init s), es := es0\<rparr>)"
  from finished(3) assms(2)
  have "(Construct (x0_of l (X_init s)) sigma0 inopts, Done) # evs @ [(Best, RetObj (NdArray b))]
      = pre @ (c, out) # post" by simp
  from split_framed [OF this] assms(3,4) obtain pre2 post2 where
    "pre = (Construct (x0_of l (X_init s)) sigma0 inopts, Done) # pre2"
    "evs = pre2 @ (c, out) # post2" by (auto simp: Cons_eq_append_conv)
  with finished(6) show ?thesis
    by (intro exI [of _ ?s1] exI [of _ None] exI [of _ s2] exI [of _ evs]
        exI [of _ pre2] exI [of _ post2])
      (simp add: same_but_data_def optimizer_called_fields)
qed

lemma tell_context:
  assumes "run l s = Some (r, s3, tr)" and "tr = pre @ (Tell b sc, out) # post"
  shows "\<exists>a A pre'. b = passed_back l (X_init s) (NdArray a)
       \<and> pre = pre' @ [(Ask, RetObj (NdArray a)), (Acq (batch_of l (X_init s) a), RetTensor A)]
       \<and> acq_func l (batch_of l (X_init s) a) = Inr A
       \<and> device A = CPU
       \<and> sc = scores_of l A"
proof -
  from run_event_in_loop [OF run_steps_sound [OF assms(1)] assms(2)]
  obtain s1 r' s2 evs pre2 post2 where
    evs: "loop_steps l s1 r' s2 evs" "same_but_data (X_init s1) (X_init s)"
       "vars.more s1 = vars.more s"
       "pre = (Construct (x0_of l (X_init s)) sigma0 inopts, Done) # pre2"
       "evs = pre2 @ (Tell b sc, out) # post2" by auto
  from tell_context_loop [OF evs(1,2,5)] obtain a A pre' where
    "b = passed_back l (X_init s) (NdArray a)"
    "pre2 = pre' @ [(Ask, RetObj (NdArray a)), (Acq (batch_of l (X_init s) a), RetTensor A)]"
    "acq_func l (batch_of l (X_init s) a) = Inr A"
    "device A = CPU" "sc = scores_of l A" by auto
  with evs(4) show ?thesis
    by (intro exI [of _ a] exI [of _ A]
        exI [of _ "(Construct (x0_of l (X_init s)) sigma0 inopts, Done) # pre'"]) simp
qed

lemma acq_context:
  assumes "run l s = Some (r, s3, tr)" and "tr = pre @ (Acq t, out) # post"
  shows "\<exists>a pre'. pre = pre' @ [(Ask, RetObj (NdArray a))] \<and> t = batch_of l (X_init s) a"
proof -
  from run_event_in_loop [OF run_steps_sound [OF assms(1)] assms(2)]
  obtain s1 r' s2 evs pre2 post2 where
    evs: "loop_steps l s1 r' s2 evs" "same_but_data (X_init s1) (X_init s)"
       "vars.more s1 = vars.more s"
       "pre = (Construct (x0_of l (X_init s)) sigma0 inopts, Done) # pre2"
       "evs = pre2 @ (Acq t, out) # post2" by auto
  from acq_context_loop [OF evs(1,2,5)] obtain a pre' where
    "pre2 = pre' @ [(Ask, RetObj (NdArray a))]" "t = batch_of l (X_init s) a" by auto
  with evs(4) show ?thesis
    by (intro exI [of _ a]
        exI [of _ "(Construct (x0_of l (X_init s)) sigma0 inopts, Done) # pre'"]) simp
qed

text \<open>The constructor is called once, first, with the cell's arguments.\<close>

lemma construct_first:
  assumes "run_steps l s r s3 tr" and "tr = pre @ (Construct a sg opts, out) # post"
  shows "pre = [] \<and> a = x0_of l (X_init s) \<and> sg = sigma0 \<and> opts = inopts"
proof -
  have no: "\<And>s1 r' s2 evs pre2 post2. loop_steps l s1 r' s2 evs \<Longrightarrow>
      vars.more s1 = vars.more s \<Longrightarrow> evs \<noteq> pre2 @ (Construct a sg opts, out) # post2"
  proof
    fix s1 r' s2 evs pre2 post2
    assume "loop_steps l s1 r' s2 evs" and "vars.more s1 = vars.more s"
      and "evs = pre2 @ (Construct a sg opts, out) # post2"
    with loop_kinds [of l s1 r' s2 evs "Construct a sg opts" out] show False by simp
  qed
  have more: "\<And>es0. vars.more (optimizer_called l (s\<lparr>x0 := x0_of l (X_init s), es := es0\<rparr>))
      = vars.more s"
    by (simp add: optimizer_called_fields)
  from assms(1) show ?thesis
  proof (cases rule: run_steps.cases)
    case x0_raised
    with assms(2) show ?thesis by simp
  next
    case (construct_raised e')
    with assms(2) show ?thesis by (auto simp: Cons_eq_append_conv)
  next
    case (loop_raised es0 e' evs)
    from loop_raised(2) assms(2)
    have "(Construct (x0_of l (X_init s)) sigma0 inopts, Done) # evs @ []
        = pre @ (Construct a sg opts, out) # post" by simp
    from split_framed [OF this] no [OF loop_raised(5) more] show ?thesis by auto
  next
    case (best_raised es0 evs e')
    from best_raised(2) assms(2)
    have "(Construct (x0_of l (X_init s)) sigma0 inopts, Done) # evs @ [(Best, Raised e')]
        = pre @ (Construct a sg opts, out) # post" by simp
    from split_framed [OF this] no [OF best_raised(5) more] show ?thesis
      by (auto simp: Cons_eq_append_conv)
  next
    case (best_not_array es0 evs bx)
    from best_not_array(2) assms(2)
    have "(Construct (x0_of l (X_init s)) sigma0 inopts, Done) # evs @ [(Best, RetObj bx)]
        = pre @ (Construct a sg opts, out) # post" by simp
    from split_framed [OF this] no [OF best_not_array(5) more] show ?thesis
      by (auto simp: Cons_eq_append_conv)
  next
    case (finished es0 s2 evs b)
    from finished(3) assms(2)
    have "(Construct (x0_of l (X_init s)) sigma0 inopts, Done) # evs @ [(Best, RetObj (NdArray b))]
        = pre @ (Construct a sg opts, out) # post" by simp
    from split_framed [OF this] no [OF finished(6) more] show ?thesis
      by (auto simp: Cons_eq_append_conv)
  qed
qed

lemma construct_present:
  assumes "run_steps l s r s3 tr" and "\<not> requires_grad (X_init s)"
  shows "\<exists>out rest. tr = (Construct (x0_of l (X_init s)) sigma0 inopts, out) # rest"
  using assms by (cases rule: run_steps.cases) auto

lemma inopts_map:
  "map_of inopts = [''bounds'' \<mapsto> OptList [0, 1], ''popsize'' \<mapsto> OptInt 100]"
  by (auto simp: inopts_def)










lemma gated_loop: "loop_steps l s r s2 evs \<Longrightarrow> gated False evs"
proof (induction rule: loop_steps.induct)
  case (stop_true s es1)
  show ?case by simp
next
  case (stop_raised s e)
  show ?case by simp
next
  case (body_raised s es1 e s2 evs)
  from round_raised [OF body_raised(2) same_but_data_refl] show ?case
    by (elim disjE exE conjE) simp_all
next
  case (again s es1 s2 evs r s3 evs')
  from round_completed [OF again(2) same_but_data_refl] obtain a A where
    "evs = [(Ask, RetObj (NdArray a)),
            (Acq (batch_of l (X_init s) a), RetTensor A),
            (Tell (passed_back l (X_init s) (NdArray a)) (scores_of l A), Done)]" by blast
  with again.IH show ?case by simp
qed

lemma vars_after_Suc:
  assumes "vars_after l (Suc n) s = Some s_n"
  obtains es1 s2 evs where "stop l (es s) = Inr (False, es1)"
    "iteration l (optimizer_called l (s\<lparr>es := es1\<rparr>)) [] = (None, s2, evs)"
    "vars_after l n s2 = Some s_n"
proof (cases "stop l (es s)")
  case (Inl e)
  with assms show ?thesis by (simp add: stop_test_def)
next
  case (Inr p)
  obtain b es1 where p: "p = (b, es1)" by (cases p)
  obtain r s2 evs where it: "iteration l (optimizer_called l (s\<lparr>es := es1\<rparr>)) [] = (r, s2, evs)"
    by (cases "iteration l (optimizer_called l (s\<lparr>es := es1\<rparr>)) []")
  from assms Inr p it have "b = False" "r = None" "vars_after l n s2 = Some s_n"
    by (cases b; cases r; simp add: stop_test_def)+
  with Inr p it that show ?thesis by simp
qed

lemma stop_fires_loop:
  "vars_after l n s = Some s_n \<Longrightarrow> stop l (es s_n) = Inr (True, es') \<Longrightarrow>
     \<exists>evs. loop_steps l s None (optimizer_called l (s_n\<lparr>es := es'\<rparr>)) evs
       \<and> kinds evs = concat (replicate n [KStop, KAsk, KAcq, KTell]) @ [KStop]
       \<and> stop_answers evs = replicate n False @ [True]"
proof (induction n arbitrary: s)
  case 0
  then have "loop_steps l s None (optimizer_called l (s_n\<lparr>es := es'\<rparr>)) [(Stop, RetBool True)]"
    by (auto intro: loop_steps.stop_true)
  then show ?case by (intro exI [of _ "[(Stop, RetBool True)]"]) simp
next
  case (Suc n)
  from Suc.prems(1) obtain es1 s2 evs0 where
    st: "stop l (es s) = Inr (False, es1)" and
    it: "iteration l (optimizer_called l (s\<lparr>es := es1\<rparr>)) [] = (None, s2, evs0)" and
    rest: "vars_after l n s2 = Some s_n"
    by (rule vars_after_Suc)
  from Suc.IH [OF rest Suc.prems(2)] obtain evs' where
    evs': "loop_steps l s2 None (optimizer_called l (s_n\<lparr>es := es'\<rparr>)) evs'"
      "kinds evs' = concat (replicate n [KStop, KAsk, KAcq, KTell]) @ [KStop]"
      "stop_answers evs' = replicate n False @ [True]" by blast
  from round_completed [OF it same_but_data_refl] obtain a A where
    evs0: "evs0 = [(Ask, RetObj (NdArray a)),
          (Acq (batch_of l (X_init s) a), RetTensor A),
          (Tell (passed_back l (X_init s) (NdArray a)) (scores_of l A), Done)]" by blast
  from st it evs'(1)
  have "loop_steps l s None (optimizer_called l (s_n\<lparr>es := es'\<rparr>))
      ((Stop, RetBool False) # evs0 @ evs')"
    by (rule loop_steps.again)
  with evs0 evs'(2,3) show ?case
    by (intro exI [of _ "(Stop, RetBool False) # evs0 @ evs'"]) simp
qed







lemma collect_all:
  "\<forall>i \<in> set is. \<exists>sc. f i = Inr sc \<and> np_data sc = [g i] \<Longrightarrow>
     collect (map f is) = Inr (map g is)"
  by (induction "is") auto

lemma evaluate_Inr:
  assumes "acq_func l t = Inr A"
  shows "evaluate l t = (if device A = CPU then Inr (scores_of l A) else Inl TypeError)"
  using assms
  by (simp add: evaluate_def scores_of_def numpy_def double_def to_dtype_def view_flat_def
      neg_def numel_def)




text \<open>The alternation of asks and tells, for the whole cell.\<close>

lemma alternates_run:
  assumes "run_steps l s r s2 tr"
    and "\<And>e a e'. ask l e = Inr (NdArray a, e') \<Longrightarrow>
           passes (NdArray a) (passed_back l (X_init s) (NdArray a))"
  shows "alternates passes None tr"
proof -
  have loop: "alternates passes None evs
     \<and> (r' = None \<longrightarrow> (\<forall>t. alternates passes None (evs @ t) = alternates passes None t))"
    if "loop_steps l (optimizer_called l (s\<lparr>x0 := x0_of l (X_init s), es := es0\<rparr>)) r' s' evs"
    for es0 r' s' evs
  proof -
    have "same_but_data
        (X_init (optimizer_called l (s\<lparr>x0 := x0_of l (X_init s), es := es0\<rparr>))) (X_init s)"
      by (simp add: same_but_data_def optimizer_called_fields)
    from alternates_loop [where passes = passes, OF that this assms(2)] show ?thesis .
  qed
  from assms(1) show ?thesis
  proof (cases rule: run_steps.cases)
    case x0_raised
    then show ?thesis by simp
  next
    case (construct_raised e)
    then show ?thesis by simp
  next
    case (loop_raised es0 e evs)
    with loop [OF loop_raised(5)] show ?thesis by simp
  next
    case (best_raised es0 evs e)
    with loop [OF best_raised(5)] show ?thesis by simp
  next
    case (best_not_array es0 evs bx)
    with loop [OF best_not_array(5)] show ?thesis by simp
  next
    case (finished es0 s1 evs b)
    with loop [OF finished(6)] show ?thesis by simp
  qed
qed

text \<open>When the evaluated batch is a copy, or nothing is written into it.\<close>

lemma passed_back_same:
  assumes "(\<forall>t. X_written l t = data t) \<or> \<not> X_is_view X0 a"
  shows "passed_back l X0 (NdArray a) = NdArray a"
  using assms
  by (auto simp: passed_back_def X_is_view_def batch_of_def to_def to_device_def to_dtype_def
      tensor_of_def convert_def)


lemma passed_back_untouched:
  assumes "X_written l (to l (tensor_of a) (device X0) (dtype X0))
      = data (to l (tensor_of a) (device X0) (dtype X0)) \<or> \<not> X_is_view X0 a"
  shows "passed_back l X0 (NdArray a) = NdArray a"
  using assms
  by (auto simp: passed_back_def X_is_view_def batch_of_def to_def to_device_def to_dtype_def
      tensor_of_def convert_def)

lemma copy_or_unwritten:
  assumes "(\<forall>t. X_written l t = data t)
      \<or> device (X_init s) \<noteq> CPU
      \<or> (\<forall>e a e'. ask l e = Inr (NdArray a, e') \<longrightarrow> np_dtype a \<noteq> dtype (X_init s))"
    and "ask l e = Inr (NdArray a, e')"
  shows "(\<forall>t. X_written l t = data t) \<or> \<not> X_is_view (X_init s) a"
proof -
  from assms(1) consider (unwritten) "\<forall>t. X_written l t = data t"
    | (elsewhere) "device (X_init s) \<noteq> CPU"
    | (converted) "\<forall>e a e'. ask l e = Inr (NdArray a, e') \<longrightarrow> np_dtype a \<noteq> dtype (X_init s)"
    by blast
  then show ?thesis
  proof cases
    case unwritten
    then show ?thesis by simp
  next
    case elsewhere
    then show ?thesis by (simp add: X_is_view_def)
  next
    case converted
    with assms(2) have "np_dtype a \<noteq> dtype (X_init s)" by blast
    then show ?thesis by (auto simp: X_is_view_def)
  qed
qed



section \<open>The claims\<close>

subsection \<open>The ask/tell protocol\<close>

text \<open>
  Claim C3, as stated, fails. Asks and tells do alternate, but what a tell passes back
  need not be what the ask returned. When \<open>X_init\<close> is on the CPU with the dtype of the
  asked array, line 62 makes \<open>X\<close> a view of \<open>xs\<close> and not a copy, and an acquisition
  function that writes into the batch it is given changes the array that is then passed
  to \<open>tell\<close>. Here the optimizer proposes the candidates 0 and 1, the acquisition function
  is called on them, and the optimizer is told about the candidates 9 and 9.
\<close>

theorem tell_changed_counterexample:
  "run scribbling_lib shared_start = Some (None, scribbled_end, shared_trace scribbled_xs)
   \<and> shared_trace scribbled_xs ! 2 = (Ask, RetObj (NdArray demo_xs))
   \<and> shared_trace scribbled_xs ! 3 = (Acq shared_X, RetTensor shared_A)
   \<and> shared_trace scribbled_xs ! 4 = (Tell (NdArray scribbled_xs) demo_y, Done)
   \<and> np_data demo_xs = [0, 1]
   \<and> np_data scribbled_xs = [9, 9]
   \<and> \<not> alternates (=) None (shared_trace scribbled_xs)"
  using scribbling_run by (simp add: shared_trace_def demo_xs_def scribbled_xs_def)

text \<open>
  Claim C3, amended. In every run of the cell that returns, ask and tell calls alternate,
  starting with an ask: no two asks without a tell between them, no tell before the first
  ask. Every tell passes back the array that the ask before it returned, which holds
  what the call of the acquisition function left in it when the evaluated tensor is a
  view of it. It holds exactly what the ask returned whenever the acquisition function
  does not write into the tensor it is given, or \<open>X_init\<close> is not on the CPU, or the
  optimizer never returns an array of \<open>X_init\<close>'s dtype; in the last two cases the
  evaluated tensor is a copy.
\<close>

theorem ask_tell_alternate:
  assumes "run l s = Some (r, s2, tr)"
  shows "alternates (\<lambda>a b. b = passed_back l (X_init s) a) None tr
     \<and> ((\<forall>t. X_written l t = data t)
          \<or> device (X_init s) \<noteq> CPU
          \<or> (\<forall>e a e'. ask l e = Inr (NdArray a, e') \<longrightarrow> np_dtype a \<noteq> dtype (X_init s))
        \<longrightarrow> alternates (=) None tr)"
proof (intro conjI impI)
  show "alternates (\<lambda>a b. b = passed_back l (X_init s) a) None tr"
    by (rule alternates_run [OF run_steps_sound [OF assms]]) simp
next
  assume kept: "(\<forall>t. X_written l t = data t)
      \<or> device (X_init s) \<noteq> CPU
      \<or> (\<forall>e a e'. ask l e = Inr (NdArray a, e') \<longrightarrow> np_dtype a \<noteq> dtype (X_init s))"
  show "alternates (=) None tr"
  proof (rule alternates_run [OF run_steps_sound [OF assms]])
    fix e a e'
    assume "ask l e = Inr (NdArray a, e')"
    from passed_back_same [OF copy_or_unwritten [OF kept this]]
    show "NdArray a = passed_back l (X_init s) (NdArray a)" by simp
  qed
qed

theorem ask_tell_alternate_witness:
  "run demo_lib demo_start = Some (None, demo_end, demo_trace)
   \<and> (\<forall>t. X_written demo_lib t = data t)
   \<and> alternates (=) None demo_trace
   \<and> run scribbling_lib shared_start = Some (None, scribbled_end, shared_trace scribbled_xs)
   \<and> alternates (\<lambda>a b. b = passed_back scribbling_lib (X_init shared_start) a) None
        (shared_trace scribbled_xs)"
proof -
  have unwritten: "\<forall>t. X_written demo_lib t = data t" by (simp add: demo_lib_def)
  from ask_tell_alternate [OF demo_run] unwritten
  have "alternates (=) None demo_trace" by blast
  moreover from ask_tell_alternate [OF scribbling_run]
  have "alternates (\<lambda>a b. b = passed_back scribbling_lib (X_init shared_start) a) None
        (shared_trace scribbled_xs)" by blast
  ultimately show ?thesis using demo_run unwritten scribbling_run by blast
qed

subsection \<open>Exceptions\<close>




subsection \<open>What is told and what is evaluated\<close>

text \<open>
  Claim C1. In every run of the cell, each tell is directly preceded by one single call of
  the acquisition function, which is itself directly preceded by the ask whose array the
  tell passes back (holding what that call left in it when the evaluated tensor is a view
  of it). That one call is made on the whole asked batch (converted to a tensor on
  \<open>X_init\<close>'s device and dtype), and the score vector passed to tell is the elementwise
  negation of what the call returned, converted to double precision; when the
  acquisition function already returns doubles, it is the negation itself.
\<close>

theorem tell_reports_negated_batch:
  assumes "run l s = Some (r, s2, tr)" and "tr = pre @ (Tell b sc, out) # post"
  shows "\<exists>a A pre'. b = passed_back l (X_init s) (NdArray a)
       \<and> pre = pre' @ [(Ask, RetObj (NdArray a)),
             (Acq (to l (tensor_of a) (device (X_init s)) (dtype (X_init s))), RetTensor A)]
       \<and> acq_func l (to l (tensor_of a) (device (X_init s)) (dtype (X_init s))) = Inr A
       \<and> np_data sc = convert l (dtype A) Float64 (map uminus (data A))
       \<and> (dtype A = Float64 \<longrightarrow> np_data sc = map uminus (data A))
       \<and> (X_written l (to l (tensor_of a) (device (X_init s)) (dtype (X_init s)))
              = data (to l (tensor_of a) (device (X_init s)) (dtype (X_init s)))
            \<or> \<not> X_is_view (X_init s) a \<longrightarrow> b = NdArray a)"
proof -
  from tell_context [OF assms] obtain a A pre' where
    "b = passed_back l (X_init s) (NdArray a)"
    "pre = pre' @ [(Ask, RetObj (NdArray a)), (Acq (batch_of l (X_init s) a), RetTensor A)]"
    "acq_func l (batch_of l (X_init s) a) = Inr A"
    "sc = scores_of l A" by blast
  then show ?thesis
    by (intro exI [of _ a] exI [of _ A] exI [of _ pre'])
      (auto simp add: convert_def batch_of_def scores_of_def passed_back_untouched)
qed

theorem tell_reports_negated_batch_witness:
  "run demo_lib demo_start = Some (None, demo_end, demo_trace)
   \<and> demo_trace = take 4 demo_trace @ (Tell (NdArray demo_xs) demo_y, Done) # drop 5 demo_trace
   \<and> (\<exists>a A pre'. NdArray demo_xs = passed_back demo_lib (X_init demo_start) (NdArray a)
       \<and> take 4 demo_trace = pre' @ [(Ask, RetObj (NdArray a)),
            (Acq (to demo_lib (tensor_of a) (device (X_init demo_start)) (dtype (X_init demo_start))),
             RetTensor A)]
       \<and> acq_func demo_lib
            (to demo_lib (tensor_of a) (device (X_init demo_start)) (dtype (X_init demo_start)))
           = Inr A
       \<and> np_data demo_y = convert demo_lib (dtype A) Float64 (map uminus (data A))
       \<and> (dtype A = Float64 \<longrightarrow> np_data demo_y = map uminus (data A))
       \<and> (X_written demo_lib
              (to demo_lib (tensor_of a) (device (X_init demo_start)) (dtype (X_init demo_start)))
              = data (to demo_lib (tensor_of a) (device (X_init demo_start))
                        (dtype (X_init demo_start)))
            \<or> \<not> X_is_view (X_init demo_start) a \<longrightarrow> NdArray demo_xs = NdArray a))"
proof -
  have split: "demo_trace
      = take 4 demo_trace @ (Tell (NdArray demo_xs) demo_y, Done) # drop 5 demo_trace"
    by (simp add: demo_trace_def)
  show ?thesis
    by (rule conjI [OF demo_run conjI [OF split tell_reports_negated_batch [OF demo_run split]]])
qed

text \<open>
  Claim C10. In every run of the cell, each call of the acquisition function is directly
  preceded by an ask that returned an array, and its argument is that array made into a
  tensor and moved to \<open>X_init\<close>'s device and dtype: whatever array the optimizer returned,
  the argument's device and dtype are those of \<open>X_init\<close>, its shape is the array's and its
  elements are the array's, converted.
\<close>

theorem acq_input_matches_X_init:
  assumes "run l s = Some (r, s2, tr)" and "tr = pre @ (Acq t, out) # post"
  shows "device t = device (X_init s) \<and> dtype t = dtype (X_init s)
     \<and> (\<exists>a pre'. pre = pre' @ [(Ask, RetObj (NdArray a))]
           \<and> t = to l (tensor_of a) (device (X_init s)) (dtype (X_init s))
           \<and> shape t = np_shape a
           \<and> data t = convert l (np_dtype a) (dtype (X_init s)) (np_data a))"
proof -
  from acq_context [OF assms] obtain a pre' where
    "pre = pre' @ [(Ask, RetObj (NdArray a))]" "t = batch_of l (X_init s) a" by blast
  then show ?thesis
    by (auto simp: batch_of_def to_def to_device_def to_dtype_def tensor_of_def)
qed

theorem acq_input_matches_X_init_witness:
  "run demo_lib demo_start = Some (None, demo_end, demo_trace)
   \<and> demo_trace = take 3 demo_trace @ (Acq demo_X, RetTensor demo_A) # drop 4 demo_trace
   \<and> device demo_X = device (X_init demo_start) \<and> dtype demo_X = dtype (X_init demo_start)
   \<and> (\<exists>a pre'. take 3 demo_trace = pre' @ [(Ask, RetObj (NdArray a))]
         \<and> demo_X = to demo_lib (tensor_of a) (device (X_init demo_start)) (dtype (X_init demo_start))
         \<and> shape demo_X = np_shape a
         \<and> data demo_X = convert demo_lib (np_dtype a) (dtype (X_init demo_start)) (np_data a))"
proof -
  have split: "demo_trace = take 3 demo_trace @ (Acq demo_X, RetTensor demo_A) # drop 4 demo_trace"
    by (simp add: demo_trace_def)
  show ?thesis
    by (rule conjI [OF demo_run conjI [OF split acq_input_matches_X_init [OF demo_run split]]])
qed

subsection \<open>The shape of the scores\<close>

text \<open>
  Claim C4, as stated, fails: the length of the score array is the number of elements of
  what the acquisition function returned, which the cell does not compare with the number
  of candidates. With an acquisition function that returns one score for the whole batch,
  the optimizer asked for two candidates is told a score array of length one.
\<close>

theorem scores_length_counterexample:
  "run scalar_lib demo_start = Some (None, scalar_end, scalar_trace)
   \<and> scalar_trace ! 2 = (Ask, RetObj (NdArray demo_xs))
   \<and> np_shape demo_xs = [2, 1]
   \<and> scalar_trace ! 4 = (Tell (NdArray demo_xs) scalar_y, Done)
   \<and> np_shape scalar_y = [1]"
  using scalar_run by (simp add: scalar_trace_def demo_xs_def scalar_y_def)

text \<open>
  Claim C4, amended. In every run of the cell, the score array passed to a tell is
  one-dimensional and has as many entries as the output of the acquisition function on
  the asked batch; it has exactly one score per asked candidate whenever the acquisition
  function returned exactly one score per candidate.
\<close>

theorem scores_one_dimensional:
  assumes "run l s = Some (r, s2, tr)" and "tr = pre @ (Tell b sc, out) # post"
  shows "\<exists>a A pre'. b = passed_back l (X_init s) (NdArray a)
       \<and> pre = pre' @ [(Ask, RetObj (NdArray a)),
             (Acq (to l (tensor_of a) (device (X_init s)) (dtype (X_init s))), RetTensor A)]
       \<and> np_shape sc = [numel A]
       \<and> length (np_data sc) = length (data A)
       \<and> (numel A = batch_size (tensor_of a) \<and> length (data A) = batch_size (tensor_of a)
            \<longrightarrow> np_shape sc = [batch_size (tensor_of a)]
              \<and> length (np_data sc) = batch_size (tensor_of a))
       \<and> (X_written l (to l (tensor_of a) (device (X_init s)) (dtype (X_init s)))
              = data (to l (tensor_of a) (device (X_init s)) (dtype (X_init s)))
            \<or> \<not> X_is_view (X_init s) a \<longrightarrow> b = NdArray a)"
proof -
  from tell_context [OF assms] obtain a A pre' where
    "b = passed_back l (X_init s) (NdArray a)"
    "pre = pre' @ [(Ask, RetObj (NdArray a)), (Acq (batch_of l (X_init s) a), RetTensor A)]"
    "sc = scores_of l A" by blast
  then show ?thesis
    by (intro exI [of _ a] exI [of _ A] exI [of _ pre'])
      (auto simp add: convert_def batch_of_def scores_of_def passed_back_untouched)
qed

theorem scores_one_dimensional_witness:
  "run demo_lib demo_start = Some (None, demo_end, demo_trace)
   \<and> demo_trace = take 4 demo_trace @ (Tell (NdArray demo_xs) demo_y, Done) # drop 5 demo_trace
   \<and> numel demo_A = batch_size (tensor_of demo_xs)
   \<and> length (data demo_A) = batch_size (tensor_of demo_xs)
   \<and> np_shape demo_y = [batch_size (tensor_of demo_xs)]
   \<and> length (np_data demo_y) = batch_size (tensor_of demo_xs)"
proof -
  have split: "demo_trace
      = take 4 demo_trace @ (Tell (NdArray demo_xs) demo_y, Done) # drop 5 demo_trace"
    by (simp add: demo_trace_def)
  from scores_one_dimensional [OF demo_run split] obtain a A pre' where
    pre: "take 4 demo_trace = pre' @ [(Ask, RetObj (NdArray a)),
        (Acq (to demo_lib (tensor_of a) (device (X_init demo_start)) (dtype (X_init demo_start))),
         RetTensor A)]"
    and scores: "numel A = batch_size (tensor_of a) \<and> length (data A) = batch_size (tensor_of a)
        \<longrightarrow> np_shape demo_y = [batch_size (tensor_of a)]
          \<and> length (np_data demo_y) = batch_size (tensor_of a)"
    by blast
  from pre have A: "a = demo_xs" "A = demo_A"
    by (auto simp: demo_trace_def Cons_eq_append_conv)
  have one_each: "numel demo_A = batch_size (tensor_of demo_xs)
      \<and> length (data demo_A) = batch_size (tensor_of demo_xs)"
    by (simp add: demo_A_def demo_xs_def numel_def batch_size_def tensor_of_def)
  from A one_each scores
  have "np_shape demo_y = [batch_size (tensor_of demo_xs)]
      \<and> length (np_data demo_y) = batch_size (tensor_of demo_xs)" by simp
  with demo_run split one_each show ?thesis by blast
qed


subsection \<open>Construction and conversions\<close>

text \<open>
  Claim C9. In every run of the cell, the optimizer is constructed (unless the conversion
  of \<open>X_init\<close> already raised) with the converted initial point, the initial standard
  deviation 0.25 and the options \<^verbatim>\<open>bounds = [0, 1]\<close>, \<^verbatim>\<open>popsize = 100\<close>, and nothing
  else; the constructor is the first external call and is called only once.
\<close>

theorem optimizer_constructed_with_fixed_options:
  assumes "run l s = Some (r, s2, tr)"
  shows "(\<not> requires_grad (X_init s) \<longrightarrow>
            (\<exists>a out rest. tr = (Construct a 0.25 inopts, out) # rest))
     \<and> (\<forall>pre a sg opts out post. tr = pre @ (Construct a sg opts, out) # post \<longrightarrow>
            pre = [] \<and> sg = 0.25
            \<and> map_of opts = [''bounds'' \<mapsto> OptList [0, 1], ''popsize'' \<mapsto> OptInt 100])"
proof (intro conjI impI allI)
  assume "\<not> requires_grad (X_init s)"
  from construct_present [OF run_steps_sound [OF assms] this]
  show "\<exists>a out rest. tr = (Construct a 0.25 inopts, out) # rest"
    by (auto simp: sigma0_def)
next
  fix pre a sg opts out post
  assume "tr = pre @ (Construct a sg opts, out) # post"
  from construct_first [OF run_steps_sound [OF assms] this]
  have *: "pre = []" "sg = sigma0" "opts = inopts" by simp_all
  from * show "pre = []" by simp
  from * show "sg = 0.25" by (simp add: sigma0_def)
  from * show "map_of opts = [''bounds'' \<mapsto> OptList [0, 1], ''popsize'' \<mapsto> OptInt 100]"
    by (simp add: inopts_map)
qed

theorem optimizer_constructed_with_fixed_options_witness:
  "run demo_lib demo_start = Some (None, demo_end, demo_trace)
   \<and> \<not> requires_grad (X_init demo_start)
   \<and> (\<exists>a out rest. demo_trace = (Construct a 0.25 inopts, out) # rest)"
proof -
  have ng: "\<not> requires_grad (X_init demo_start)" by (simp add: demo_start_def X_demo_def)
  from optimizer_constructed_with_fixed_options [OF demo_run] ng
  have "\<exists>a out rest. demo_trace = (Construct a 0.25 inopts, out) # rest"
    by blast
  with demo_run ng show ?thesis by blast
qed



subsection \<open>When the loop runs and when it ends\<close>

text \<open>
  Claim C2. If the stopping predicate answers true at the \<open>n\<close>-th test after the first
  (the tests before it answered false and their iterations completed), the loop returns:
  it has made exactly \<open>n\<close> rounds of stop, ask, acquisition function, tell, one for each
  false answer, followed by the stop that answered true and by nothing else. And in
  every run of the loop that returns, however it ends, an ask is issued exactly after a
  stop that answered false, and nothing is called after a stop that answered true.
\<close>

theorem loop_runs_until_stop:
  "(vars_after l n s = Some s_n \<and> stop l (es s_n) = Inr (True, es') \<longrightarrow>
      (\<exists>evs. optimization_loop l s tr
                = Some (None, optimizer_called l (s_n\<lparr>es := es'\<rparr>), tr @ evs)
         \<and> kinds evs = concat (replicate n [KStop, KAsk, KAcq, KTell]) @ [KStop]
         \<and> stop_answers evs = replicate n False @ [True]))
   \<and> (optimization_loop l s tr = Some (r, s2, tr') \<longrightarrow>
        (\<exists>evs. tr' = tr @ evs \<and> gated False evs))"
proof (intro conjI impI)
  assume "vars_after l n s = Some s_n \<and> stop l (es s_n) = Inr (True, es')"
  then obtain evs where evs: "loop_steps l s None (optimizer_called l (s_n\<lparr>es := es'\<rparr>)) evs"
      "kinds evs = concat (replicate n [KStop, KAsk, KAcq, KTell]) @ [KStop]"
      "stop_answers evs = replicate n False @ [True]"
    using stop_fires_loop [of l n s s_n es'] by blast
  from loop_steps_complete [OF evs(1), of tr] evs(2,3)
  show "\<exists>evs. optimization_loop l s tr
                = Some (None, optimizer_called l (s_n\<lparr>es := es'\<rparr>), tr @ evs)
         \<and> kinds evs = concat (replicate n [KStop, KAsk, KAcq, KTell]) @ [KStop]
         \<and> stop_answers evs = replicate n False @ [True]" by blast
next
  assume "optimization_loop l s tr = Some (r, s2, tr')"
  from loop_steps_sound [OF this] obtain evs where
    "tr' = tr @ evs" "loop_steps l s r s2 evs" by auto
  then show "\<exists>evs. tr' = tr @ evs \<and> gated False evs" using gated_loop by auto
qed

theorem loop_runs_until_stop_witness:
  "vars_after demo_lib (Suc 0) demo_constructed = Some demo_iterated
   \<and> stop demo_lib (es demo_iterated) = Inr (True, Suc 0)
   \<and> (\<exists>evs. optimization_loop demo_lib demo_constructed []
           = Some (None, optimizer_called demo_lib (demo_iterated\<lparr>es := Suc 0\<rparr>), [] @ evs)
         \<and> kinds evs = concat (replicate (Suc 0) [KStop, KAsk, KAcq, KTell]) @ [KStop]
         \<and> stop_answers evs = replicate (Suc 0) False @ [True])
   \<and> optimization_loop demo_lib demo_constructed []
       = Some (None, demo_iterated, drop 1 (take 6 demo_trace))
   \<and> (\<exists>evs. drop 1 (take 6 demo_trace) = [] @ evs \<and> gated False evs)"
proof -
  have fires: "vars_after demo_lib (Suc 0) demo_constructed = Some demo_iterated
      \<and> stop demo_lib (es demo_iterated) = Inr (True, Suc 0)"
    by (simp add: example_defs)
  from loop_runs_until_stop [of demo_lib "Suc 0" demo_constructed demo_iterated "Suc 0" "[]"
      None demo_iterated "drop 1 (take 6 demo_trace)"] fires demo_loop
  show ?thesis by blast
qed

subsection \<open>Batched evaluation against one-by-one evaluation\<close>

text \<open>
  Claim C7. For every batch on which the acquisition function acts pointwise, whenever
  the batched evaluation (one call on the whole batch, negated, flattened, converted to
  double) yields scores, evaluating the candidates one by one and collecting the results
  yields the same scores: there is one score per candidate, and the score of the \<open>i\<close>-th
  candidate is the one its own evaluation gives.
\<close>

theorem batched_equals_one_by_one:
  assumes "acts_pointwise l t" and "evaluate l t = Inr sc"
  shows "one_by_one l t = Inr (np_data sc)
     \<and> length (np_data sc) = batch_size t
     \<and> (\<forall>i < batch_size t. \<exists>sci. evaluate l (candidate t i) = Inr sci
            \<and> np_data sci = [np_data sc ! i])"
proof -
  from assms(1) obtain A where A: "acq_func l t = Inr A" "length (data A) = batch_size t"
    and all: "\<forall>i \<in> {0..<batch_size t}. case acq_func l (candidate t i) of
                 Inl e \<Rightarrow> False
               | Inr Ai \<Rightarrow> data Ai = [data A ! i] \<and> dtype Ai = dtype A \<and> device Ai = device A"
    by (cases "acq_func l t") (simp_all add: acts_pointwise_def list_all_iff)
  have each: "\<forall>i < batch_size t. \<exists>Ai. acq_func l (candidate t i) = Inr Ai
        \<and> data Ai = [data A ! i] \<and> dtype Ai = dtype A \<and> device Ai = device A"
  proof (intro allI impI)
    fix i assume "i < batch_size t"
    with all have "case acq_func l (candidate t i) of
                 Inl e \<Rightarrow> False
               | Inr Ai \<Rightarrow> data Ai = [data A ! i] \<and> dtype Ai = dtype A \<and> device Ai = device A"
      by simp
    then show "\<exists>Ai. acq_func l (candidate t i) = Inr Ai
        \<and> data Ai = [data A ! i] \<and> dtype Ai = dtype A \<and> device Ai = device A"
      by (cases "acq_func l (candidate t i)") simp_all
  qed
  let ?c = "\<lambda>v. if dtype A = Float64 then v else cast l (dtype A) Float64 v"
  have conv: "\<And>vs. convert l (dtype A) Float64 vs = map ?c vs"
    by (simp add: convert_def)
  from assms(2) A(1) have cpu: "device A = CPU"
    and sc: "np_data sc = map ?c (map uminus (data A))"
    by (auto simp: evaluate_Inr scores_of_def conv split: if_splits)
  have one: "\<exists>sci. evaluate l (candidate t i) = Inr sci \<and> np_data sci = [?c (- (data A ! i))]"
    if "i < batch_size t" for i
  proof -
    from each that obtain Ai where "acq_func l (candidate t i) = Inr Ai"
      "data Ai = [data A ! i]" "dtype Ai = dtype A" "device Ai = device A" by blast
    with cpu show ?thesis by (simp add: evaluate_Inr scores_of_def conv)
  qed
  have len: "length (np_data sc) = batch_size t" using sc A(2) by simp
  have nth: "np_data sc ! i = ?c (- (data A ! i))" if "i < batch_size t" for i
    using that sc A(2) by simp
  have "one_by_one l t = Inr (map (\<lambda>i. ?c (- (data A ! i))) [0..<batch_size t])"
    unfolding one_by_one_def using one by (intro collect_all) simp
  also have "map (\<lambda>i. ?c (- (data A ! i))) [0..<batch_size t] = np_data sc"
    using nth len by (intro nth_equalityI) simp_all
  finally have "one_by_one l t = Inr (np_data sc)" .
  with len one nth show ?thesis by auto
qed

theorem batched_equals_one_by_one_witness:
  "acts_pointwise demo_lib demo_X \<and> evaluate demo_lib demo_X = Inr demo_y
   \<and> one_by_one demo_lib demo_X = Inr (np_data demo_y)
   \<and> length (np_data demo_y) = batch_size demo_X"
proof -
  have pw: "acts_pointwise demo_lib demo_X"
    by (simp add: acts_pointwise_def demo_lib_def demo_X_def batch_size_def candidate_def
        row_size_def upt_rec)
  have ev: "evaluate demo_lib demo_X = Inr demo_y"
    by (simp add: evaluate_def eval_defs)
  from batched_equals_one_by_one [OF pw ev] pw ev show ?thesis by blast
qed

subsection \<open>What the cell changes\<close>




end
